theory Spec2Isabelle
  imports Main "HOL-Library.Word" "HOL-Library.Multiset" "HOL-Library.Product_Lexorder"
begin

unbundle bit_operations_syntax

section \<open>Instruction encoder (RISCV.cpp, lines 54--93)\<close>

type_synonym u8 = "8 word"
type_synonym u16 = "16 word"
type_synonym u32 = "32 word"
type_synonym u64 = "64 word"

text \<open>\<^verbatim>\<open>enum Op\<close> and \<^verbatim>\<open>enum Reg\<close>, as 32-bit values (they are only ever passed as
  \<^verbatim>\<open>uint32_t\<close> arguments of the encoders).\<close>

definition ADDI :: u32 where "ADDI = 0x13"
definition AUIPC :: u32 where "AUIPC = 0x17"
definition JALR :: u32 where "JALR = 0x67"
definition LD :: u32 where "LD = 0x3003"
definition LW :: u32 where "LW = 0x2003"
definition SRLI :: u32 where "SRLI = 0x5013"
definition SUB :: u32 where "SUB = 0x40000033"
definition CIncOffsetImm :: u32 where "CIncOffsetImm = 0x105b"
definition CLC_64 :: u32 where "CLC_64 = 0x3003"
definition CLC_128 :: u32 where "CLC_128 = 0x200f"
definition CSub :: u32 where "CSub = 0x2800005b"
definition AUIPCC :: u32 where "AUIPCC = 0x17"
definition AUICGP :: u32 where "AUICGP = 0x7b"

definition X_RA :: u32 where "X_RA = 1"
definition X_T0 :: u32 where "X_T0 = 5"
definition X_T1 :: u32 where "X_T1 = 6"
definition X_T2 :: u32 where "X_T2 = 7"
definition X_T3 :: u32 where "X_T3 = 28"

text \<open>\<^verbatim>\<open>static uint32_t hi20(uint32_t val) { return (val + 0x800) >> 12; }\<close>\<close>

definition hi20 :: "u32 \<Rightarrow> u32" where
  "hi20 val = drop_bit 12 (val + 0x800)"

text \<open>\<^verbatim>\<open>static uint32_t lo12(uint32_t val) { return val & 4095; }\<close>\<close>

definition lo12 :: "u32 \<Rightarrow> u32" where
  "lo12 val = val AND 4095"

definition itype :: "u32 \<Rightarrow> u32 \<Rightarrow> u32 \<Rightarrow> u32 \<Rightarrow> u32" where
  "itype op rd rs1 imm = op OR push_bit 7 rd OR push_bit 15 rs1 OR push_bit 20 imm"

definition rtype :: "u32 \<Rightarrow> u32 \<Rightarrow> u32 \<Rightarrow> u32 \<Rightarrow> u32" where
  "rtype op rd rs1 rs2 = op OR push_bit 7 rd OR push_bit 15 rs1 OR push_bit 20 rs2"

definition utype :: "u32 \<Rightarrow> u32 \<Rightarrow> u32 \<Rightarrow> u32" where
  "utype op rd imm = op OR push_bit 7 rd OR push_bit 12 imm"

text \<open>The spec's \<open>sign_extend12\<close>: the 12-bit field read as a two's-complement number,
  within the same 32-bit arithmetic as \<^const>\<open>hi20\<close> and \<^const>\<open>lo12\<close>.\<close>

definition sign_extend12 :: "u32 \<Rightarrow> u32" where
  "sign_extend12 x = signed_take_bit 11 x"

text \<open>\<^verbatim>\<open>extractBits(uint64_t v, uint32_t begin, uint32_t end)\<close>:
  \<^verbatim>\<open>(v & ((1ULL << (begin + 1)) - 1)) >> end\<close>, returned as \<^verbatim>\<open>uint32_t\<close>.\<close>

definition extractBits :: "u64 \<Rightarrow> nat \<Rightarrow> nat \<Rightarrow> u32" where
  "extractBits v begin end' = ucast (drop_bit end' (v AND (push_bit (begin + 1) 1 - 1)))"


section \<open>Little-endian access to a byte buffer\<close>

text \<open>A \<^verbatim>\<open>uint8_t *\<close> is a buffer together with an index into it. Writes outside the
  buffer (undefined behaviour in the source) leave the model's buffer unchanged.\<close>

definition read8 :: "u8 list \<Rightarrow> nat \<Rightarrow> u8" where
  "read8 buf loc = buf ! loc"

definition write8 :: "u8 list \<Rightarrow> nat \<Rightarrow> u8 \<Rightarrow> u8 list" where
  "write8 buf loc v = buf[loc := v]"

definition read16le :: "u8 list \<Rightarrow> nat \<Rightarrow> u16" where
  "read16le buf loc = ucast (buf ! loc) OR push_bit 8 (ucast (buf ! (loc + 1)))"

definition write16le :: "u8 list \<Rightarrow> nat \<Rightarrow> u16 \<Rightarrow> u8 list" where
  "write16le buf loc v = buf[loc := ucast v, loc + 1 := ucast (drop_bit 8 v)]"

definition read32le :: "u8 list \<Rightarrow> nat \<Rightarrow> u32" where
  "read32le buf loc =
     ucast (buf ! loc) OR push_bit 8 (ucast (buf ! (loc + 1))) OR
     push_bit 16 (ucast (buf ! (loc + 2))) OR push_bit 24 (ucast (buf ! (loc + 3)))"

definition write32le :: "u8 list \<Rightarrow> nat \<Rightarrow> u32 \<Rightarrow> u8 list" where
  "write32le buf loc v =
     buf[loc := ucast v, loc + 1 := ucast (drop_bit 8 v),
         loc + 2 := ucast (drop_bit 16 v), loc + 3 := ucast (drop_bit 24 v)]"

definition read64le :: "u8 list \<Rightarrow> nat \<Rightarrow> u64" where
  "read64le buf loc = ucast (read32le buf loc) OR push_bit 32 (ucast (read32le buf (loc + 4)))"

definition write64le :: "u8 list \<Rightarrow> nat \<Rightarrow> u64 \<Rightarrow> u8 list" where
  "write64le buf loc v = write32le (write32le buf loc (ucast v)) (loc + 4) (ucast (drop_bit 32 v))"

text \<open>The four bytes of a 32-bit word, least significant first.\<close>

definition le32 :: "u32 \<Rightarrow> u8 list" where
  "le32 v = [ucast v, ucast (drop_bit 8 v), ucast (drop_bit 16 v), ucast (drop_bit 24 v)]"


section \<open>Configuration, relocation records and diagnostics\<close>

record Config =
  is64 :: bool
  isCheriAbi :: bool
  capabilitySize :: u32
  wordsize :: u32
  relaxOpt :: bool          \<comment> \<open>\<^verbatim>\<open>config->relax\<close>\<close>
  relocatable :: bool
  writeAddends :: bool
  eflags :: u32

datatype RelType =
    R_RISCV_NONE | R_RISCV_32 | R_RISCV_64 | R_RISCV_RELATIVE | R_RISCV_COPY
  | R_RISCV_JUMP_SLOT | R_RISCV_TLS_DTPMOD32 | R_RISCV_TLS_DTPMOD64
  | R_RISCV_TLS_DTPREL32 | R_RISCV_TLS_DTPREL64 | R_RISCV_TLS_TPREL32
  | R_RISCV_TLS_TPREL64 | R_RISCV_BRANCH | R_RISCV_JAL | R_RISCV_CALL
  | R_RISCV_CALL_PLT | R_RISCV_GOT_HI20 | R_RISCV_TLS_GOT_HI20
  | R_RISCV_TLS_GD_HI20 | R_RISCV_PCREL_HI20 | R_RISCV_PCREL_LO12_I
  | R_RISCV_PCREL_LO12_S | R_RISCV_HI20 | R_RISCV_LO12_I | R_RISCV_LO12_S
  | R_RISCV_TPREL_HI20 | R_RISCV_TPREL_LO12_I | R_RISCV_TPREL_LO12_S
  | R_RISCV_TPREL_ADD | R_RISCV_ADD8 | R_RISCV_ADD16 | R_RISCV_ADD32
  | R_RISCV_ADD64 | R_RISCV_SUB8 | R_RISCV_SUB16 | R_RISCV_SUB32
  | R_RISCV_SUB64 | R_RISCV_ALIGN | R_RISCV_RVC_BRANCH | R_RISCV_RVC_JUMP
  | R_RISCV_RVC_LUI | R_RISCV_RELAX | R_RISCV_SUB6 | R_RISCV_SET6
  | R_RISCV_SET8 | R_RISCV_SET16 | R_RISCV_SET32 | R_RISCV_32_PCREL
  | R_RISCV_IRELATIVE | R_RISCV_CHERI_CAPABILITY | R_RISCV_CHERI_SIZE
  | R_RISCV_CHERI_TPREL_CINCOFFSET | R_RISCV_CHERI_CAPTAB_PCREL_HI20
  | R_RISCV_CHERI_TLS_IE_CAPTAB_PCREL_HI20
  | R_RISCV_CHERI_TLS_GD_CAPTAB_PCREL_HI20 | R_RISCV_CHERI_CJAL
  | R_RISCV_CHERI_CCALL | R_RISCV_CHERI_RVC_CJUMP
  | R_RISCV_CHERIOT_COMPARTMENT_HI | R_RISCV_CHERIOT_COMPARTMENT_LO_I
  | R_RISCV_CHERIOT_COMPARTMENT_LO_S | R_RISCV_CHERIOT_COMPARTMENT_SIZE

datatype RelExpr =
    R_NONE | R_ABS | R_RISCV_ADD | R_PC | R_PLT_PC | R_GOT_PC
  | R_RISCV_PC_INDIRECT | R_TLSGD_PC | R_TPREL | R_RELAX_HINT
  | R_CHERI_CAPABILITY | R_CHERI_CAPABILITY_TABLE_ENTRY_PC
  | R_CHERI_CAPABILITY_TABLE_TLSIE_ENTRY_PC
  | R_CHERI_CAPABILITY_TABLE_TLSGD_ENTRY_PC
  | R_CHERIOT_COMPARTMENT_CGPREL_HI | R_CHERIOT_COMPARTMENT_CGPREL_LO_I
  | R_CHERIOT_COMPARTMENT_CGPREL_LO_S | R_CHERIOT_COMPARTMENT_SIZE

text \<open>A \<^verbatim>\<open>Relocation\<close>; the symbol is named by its index in the symbol table.\<close>

record Relocation =
  r_expr :: RelExpr
  r_type :: RelType
  r_offset :: u64
  r_addend :: u64          \<comment> \<open>\<^verbatim>\<open>int64_t\<close>, kept as its bit pattern\<close>
  r_sym :: nat

text \<open>Diagnostics. \<^verbatim>\<open>error()\<close> and \<^verbatim>\<open>warn()\<close> record a message and return to the caller;
  \<^verbatim>\<open>fatal()\<close>, a failing \<^verbatim>\<open>assert\<close> and \<^verbatim>\<open>llvm_unreachable\<close> end the run.\<close>

datatype diag =
    RangeError nat int int int      \<comment> \<open>location, value, least and greatest admissible value\<close>
  | AlignmentError nat u64 nat      \<comment> \<open>location, value, required alignment\<close>
  | UnexpectedOpcode nat u32        \<comment> \<open>warning of \<^verbatim>\<open>R_RISCV_CHERIOT_COMPARTMENT_HI\<close>\<close>
  | LinkError string nat            \<comment> \<open>message, offending object or symbol\<close>

datatype abort =
    Unreachable                     \<comment> \<open>\<^verbatim>\<open>llvm_unreachable\<close>\<close>
  | AssertionFailed                 \<comment> \<open>a failing \<^verbatim>\<open>assert\<close>\<close>
  | Fatal string                    \<comment> \<open>\<^verbatim>\<open>fatal(...)\<close>\<close>
  | NullDereference                 \<comment> \<open>use of a null pointer after a reported error\<close>

text \<open>Modelled from the spec: \<^verbatim>\<open>checkInt\<close>, \<^verbatim>\<open>checkUInt\<close> and \<^verbatim>\<open>checkAlignment\<close> are
  declared in the linker's \<^verbatim>\<open>Target.h\<close>, which is not part of the sources at hand. The
  spec (4.C, 7): a check that fails reports a user-visible error anchored at the
  relocation location; errors accumulate and the link is abandoned before emission.
  That a failing check returns to its caller is visible in the source: the
  \<^verbatim>\<open>R_RISCV_CALL\<close> case tests \<^verbatim>\<open>isInt<20>(hi)\<close> again right after \<^verbatim>\<open>checkInt(loc, hi, 20, rel)\<close>.\<close>

definition checkInt :: "nat \<Rightarrow> u64 \<Rightarrow> nat \<Rightarrow> diag list" where
  "checkInt loc v n =
     (if v = signed_take_bit (n - 1) v then []
      else [RangeError loc (sint v) (- (2 ^ (n - 1))) (2 ^ (n - 1) - 1)])"

definition checkUInt :: "nat \<Rightarrow> u64 \<Rightarrow> nat \<Rightarrow> diag list" where
  "checkUInt loc v n =
     (if drop_bit n v = 0 then [] else [RangeError loc (uint v) 0 (2 ^ n - 1)])"

definition checkAlignment :: "nat \<Rightarrow> u64 \<Rightarrow> nat \<Rightarrow> diag list" where
  "checkAlignment loc v n =
     (if v AND (of_nat n - 1) = 0 then [] else [AlignmentError loc v n])"

text \<open>\<^verbatim>\<open>SignExtend64(x, B)\<close> and \<^verbatim>\<open>isInt<N>(x)\<close> of \<^verbatim>\<open>llvm/Support/MathExtras.h\<close>.\<close>

definition SignExtend64 :: "u64 \<Rightarrow> nat \<Rightarrow> u64" where
  "SignExtend64 x b = signed_take_bit (b - 1) x"

definition isInt :: "nat \<Rightarrow> u64 \<Rightarrow> bool" where
  "isInt n x \<longleftrightarrow> - (2 ^ (n - 1)) \<le> sint x \<and> sint x < 2 ^ (n - 1)"

definition isUInt :: "nat \<Rightarrow> u64 \<Rightarrow> bool" where
  "isUInt n x \<longleftrightarrow> uint x < 2 ^ n"


section \<open>Relocation applier (\<^verbatim>\<open>RISCV::relocate\<close>, lines 382--628)\<close>

definition dtpOffset :: u64 where "dtpOffset = 0x800"

type_synonym patch = "diag list \<times> u8 list"

definition relocRVC_BRANCH :: "u8 list \<Rightarrow> nat \<Rightarrow> u64 \<Rightarrow> patch" where
  "relocRVC_BRANCH buf loc val =
     (let d1 = checkInt loc (signed_drop_bit 1 val) 8;
          d2 = checkAlignment loc val 2;
          insn = read16le buf loc AND 0xE383;
          imm8 = (ucast (push_bit 12 (extractBits val 8 8)) :: u16);
          imm4_3 = (ucast (push_bit 10 (extractBits val 4 3)) :: u16);
          imm7_6 = (ucast (push_bit 5 (extractBits val 7 6)) :: u16);
          imm2_1 = (ucast (push_bit 3 (extractBits val 2 1)) :: u16);
          imm5 = (ucast (push_bit 2 (extractBits val 5 5)) :: u16);
          insn = insn OR (imm8 OR imm4_3 OR imm7_6 OR imm2_1 OR imm5)
      in (d1 @ d2, write16le buf loc insn))"

definition relocRVC_JUMP :: "u8 list \<Rightarrow> nat \<Rightarrow> u64 \<Rightarrow> patch" where
  "relocRVC_JUMP buf loc val =
     (let d1 = checkInt loc (signed_drop_bit 1 val) 11;
          d2 = checkAlignment loc val 2;
          insn = read16le buf loc AND 0xE003;
          imm11 = (ucast (push_bit 12 (extractBits val 11 11)) :: u16);
          imm4 = (ucast (push_bit 11 (extractBits val 4 4)) :: u16);
          imm9_8 = (ucast (push_bit 9 (extractBits val 9 8)) :: u16);
          imm10 = (ucast (push_bit 8 (extractBits val 10 10)) :: u16);
          imm6 = (ucast (push_bit 7 (extractBits val 6 6)) :: u16);
          imm7 = (ucast (push_bit 6 (extractBits val 7 7)) :: u16);
          imm3_1 = (ucast (push_bit 3 (extractBits val 3 1)) :: u16);
          imm5 = (ucast (push_bit 2 (extractBits val 5 5)) :: u16);
          insn = insn OR (imm11 OR imm4 OR imm9_8 OR imm10 OR imm6 OR imm7 OR imm3_1 OR imm5)
      in (d1 @ d2, write16le buf loc insn))"

definition relocRVC_LUI :: "nat \<Rightarrow> u8 list \<Rightarrow> nat \<Rightarrow> u64 \<Rightarrow> patch" where
  "relocRVC_LUI bits buf loc val =
     (let imm = signed_drop_bit 12 (SignExtend64 (val + 0x800) bits);
          d1 = checkInt loc imm 6
      in if imm = 0
         then (d1, write16le buf loc ((read16le buf loc AND 0x0F83) OR 0x4000))
         else
           (let imm17 = (ucast (push_bit 12 (extractBits (val + 0x800) 17 17)) :: u16);
                imm16_12 = (ucast (push_bit 2 (extractBits (val + 0x800) 16 12)) :: u16)
            in (d1, write16le buf loc ((read16le buf loc AND 0xEF83) OR imm17 OR imm16_12))))"

definition relocJAL :: "u8 list \<Rightarrow> nat \<Rightarrow> u64 \<Rightarrow> patch" where
  "relocJAL buf loc val =
     (let d1 = checkInt loc (signed_drop_bit 1 val) 20;
          d2 = checkAlignment loc val 2;
          insn = read32le buf loc AND 0xFFF;
          imm20 = push_bit 31 (extractBits val 20 20);
          imm10_1 = push_bit 21 (extractBits val 10 1);
          imm11 = push_bit 20 (extractBits val 11 11);
          imm19_12 = push_bit 12 (extractBits val 19 12);
          insn = insn OR (imm20 OR imm10_1 OR imm11 OR imm19_12)
      in (d1 @ d2, write32le buf loc insn))"

definition relocBRANCH :: "u8 list \<Rightarrow> nat \<Rightarrow> u64 \<Rightarrow> patch" where
  "relocBRANCH buf loc val =
     (let d1 = checkInt loc (signed_drop_bit 1 val) 12;
          d2 = checkAlignment loc val 2;
          insn = read32le buf loc AND 0x1FFF07F;
          imm12 = push_bit 31 (extractBits val 12 12);
          imm10_5 = push_bit 25 (extractBits val 10 5);
          imm4_1 = push_bit 8 (extractBits val 4 1);
          imm11 = push_bit 7 (extractBits val 11 11);
          insn = insn OR (imm12 OR imm10_5 OR imm4_1 OR imm11)
      in (d1 @ d2, write32le buf loc insn))"

definition relocHI20 :: "nat \<Rightarrow> u8 list \<Rightarrow> nat \<Rightarrow> u64 \<Rightarrow> patch" where
  "relocHI20 bits buf loc val =
     (let hi = val + 0x800;
          d1 = checkInt loc (signed_drop_bit 12 (SignExtend64 hi bits)) 20
      in (d1, write32le buf loc
                (ucast ((ucast (read32le buf loc) AND 0xFFF) OR (hi AND 0xFFFFF000)))))"

definition relocLO12_I :: "u8 list \<Rightarrow> nat \<Rightarrow> u64 \<Rightarrow> patch" where
  "relocLO12_I buf loc val =
     (let hi = drop_bit 12 (val + 0x800);
          lo = val - push_bit 12 hi
      in ([], write32le buf loc
                (ucast ((ucast (read32le buf loc) AND 0xFFFFF) OR push_bit 20 (lo AND 0xFFF)))))"

definition relocLO12_S :: "u8 list \<Rightarrow> nat \<Rightarrow> u64 \<Rightarrow> patch" where
  "relocLO12_S buf loc val =
     (let hi = drop_bit 12 (val + 0x800);
          lo = val - push_bit 12 hi;
          imm11_5 = push_bit 25 (extractBits lo 11 5);
          imm4_0 = push_bit 7 (extractBits lo 4 0)
      in ([], write32le buf loc ((read32le buf loc AND 0x1FFF07F) OR imm11_5 OR imm4_0)))"

text \<open>The \<^verbatim>\<open>auipc\<close>+\<^verbatim>\<open>jalr\<close> pair: \<^verbatim>\<open>relocateNoSym\<close> re-enters \<^verbatim>\<open>relocate\<close> with
  \<^verbatim>\<open>R_RISCV_PCREL_HI20\<close> at \<^verbatim>\<open>loc\<close> and \<^verbatim>\<open>R_RISCV_PCREL_LO12_I\<close> at \<^verbatim>\<open>loc + 4\<close>.\<close>

definition relocCALL :: "nat \<Rightarrow> u8 list \<Rightarrow> nat \<Rightarrow> u64 \<Rightarrow> patch" where
  "relocCALL bits buf loc val =
     (let hi = signed_drop_bit 12 (SignExtend64 (val + 0x800) bits);
          d1 = checkInt loc hi 20
      in if isInt 20 hi
         then (let (d2, buf2) = relocHI20 bits buf loc val;
                   (d3, buf3) = relocLO12_I buf2 (loc + 4) val
               in (d1 @ d2 @ d3, buf3))
         else (d1, buf))"

definition relocCOMPARTMENT_LO_I :: "bool \<Rightarrow> u8 list \<Rightarrow> nat \<Rightarrow> u64 \<Rightarrow> patch" where
  "relocCOMPARTMENT_LO_I pcc buf loc val =
     (let val = (if pcc
                 then (if 0 \<le> sint val \<or> val AND 0x7ff = 0 then val AND 0x7ff
                       else (NOT 0x7ff) OR (val AND 0x7ff))
                 else val);
          d1 = checkInt loc val 12
      in (d1, write32le buf loc
                (ucast ((ucast (read32le buf loc AND 0x000fffff)) OR push_bit 20 val))))"

definition relocCOMPARTMENT_SIZE :: "u8 list \<Rightarrow> nat \<Rightarrow> u64 \<Rightarrow> patch" where
  "relocCOMPARTMENT_SIZE buf loc val =
     (checkUInt loc val 12,
      write32le buf loc (ucast ((ucast (read32le buf loc AND 0x000fffff)) OR push_bit 20 val)))"

definition relocCOMPARTMENT_LO_S :: "u8 list \<Rightarrow> nat \<Rightarrow> u64 \<Rightarrow> patch" where
  "relocCOMPARTMENT_LO_S buf loc val =
     (let insn = read32le buf loc AND 0x1fff07f;
          val_high = (ucast (val AND 0xfe0) :: u32);
          val_low = (ucast (val AND 0x1f) :: u32)
      in ([], write32le buf loc (insn OR push_bit 20 val_high OR push_bit 7 val_low)))"

definition relocCOMPARTMENT_HI :: "bool \<Rightarrow> u8 list \<Rightarrow> nat \<Rightarrow> u64 \<Rightarrow> patch" where
  "relocCOMPARTMENT_HI pcc buf loc val =
     (let opcode = (if pcc then AUIPCC else AUICGP);
          val = (if pcc
                 then signed_drop_bit 11
                        (if sint val < 0 then (val + 0x7ff) AND NOT 0x7ff else val)
                 else val);
          existingOpcode = read32le buf loc AND 0x7f;
          d0 = (if existingOpcode \<noteq> AUIPCC \<and> existingOpcode \<noteq> AUICGP
                then [UnexpectedOpcode loc existingOpcode] else []);
          d1 = checkInt loc val 20;
          insn = read32le buf loc AND 0x00000f80
      in (d0 @ d1,
          write32le buf loc (ucast ((ucast insn) OR push_bit 12 val OR ucast opcode))))"

text \<open>The \<^verbatim>\<open>switch (rel.type)\<close>. \<open>pcc\<close> is the value of \<^verbatim>\<open>isPCCRelative(loc, rel.sym)\<close>
  (a function of \<^verbatim>\<open>Cheri.h\<close>, read only by the two compartment cases).\<close>

fun relocateType :: "Config \<Rightarrow> bool \<Rightarrow> u8 list \<Rightarrow> nat \<Rightarrow> RelType \<Rightarrow> u64 \<Rightarrow> abort + patch" where
  "relocateType cfg pcc buf loc R_RISCV_32 val = Inr ([], write32le buf loc (ucast val))"
| "relocateType cfg pcc buf loc R_RISCV_64 val = Inr ([], write64le buf loc val)"
| "relocateType cfg pcc buf loc R_RISCV_RVC_BRANCH val = Inr (relocRVC_BRANCH buf loc val)"
| "relocateType cfg pcc buf loc R_RISCV_RVC_JUMP val = Inr (relocRVC_JUMP buf loc val)"
| "relocateType cfg pcc buf loc R_RISCV_CHERI_RVC_CJUMP val = Inr (relocRVC_JUMP buf loc val)"
| "relocateType cfg pcc buf loc R_RISCV_RVC_LUI val =
     Inr (relocRVC_LUI (unat (wordsize cfg * 8)) buf loc val)"
| "relocateType cfg pcc buf loc R_RISCV_JAL val = Inr (relocJAL buf loc val)"
| "relocateType cfg pcc buf loc R_RISCV_CHERI_CJAL val = Inr (relocJAL buf loc val)"
| "relocateType cfg pcc buf loc R_RISCV_BRANCH val = Inr (relocBRANCH buf loc val)"
| "relocateType cfg pcc buf loc R_RISCV_CALL val =
     Inr (relocCALL (unat (wordsize cfg * 8)) buf loc val)"
| "relocateType cfg pcc buf loc R_RISCV_CALL_PLT val =
     Inr (relocCALL (unat (wordsize cfg * 8)) buf loc val)"
| "relocateType cfg pcc buf loc R_RISCV_CHERI_CCALL val =
     Inr (relocCALL (unat (wordsize cfg * 8)) buf loc val)"
| "relocateType cfg pcc buf loc R_RISCV_CHERI_CAPTAB_PCREL_HI20 val =
     Inr (relocHI20 (unat (wordsize cfg * 8)) buf loc val)"
| "relocateType cfg pcc buf loc R_RISCV_CHERI_TLS_IE_CAPTAB_PCREL_HI20 val =
     Inr (relocHI20 (unat (wordsize cfg * 8)) buf loc val)"
| "relocateType cfg pcc buf loc R_RISCV_CHERI_TLS_GD_CAPTAB_PCREL_HI20 val =
     Inr (relocHI20 (unat (wordsize cfg * 8)) buf loc val)"
| "relocateType cfg pcc buf loc R_RISCV_GOT_HI20 val =
     Inr (relocHI20 (unat (wordsize cfg * 8)) buf loc val)"
| "relocateType cfg pcc buf loc R_RISCV_PCREL_HI20 val =
     Inr (relocHI20 (unat (wordsize cfg * 8)) buf loc val)"
| "relocateType cfg pcc buf loc R_RISCV_TLS_GD_HI20 val =
     Inr (relocHI20 (unat (wordsize cfg * 8)) buf loc val)"
| "relocateType cfg pcc buf loc R_RISCV_TLS_GOT_HI20 val =
     Inr (relocHI20 (unat (wordsize cfg * 8)) buf loc val)"
| "relocateType cfg pcc buf loc R_RISCV_TPREL_HI20 val =
     Inr (relocHI20 (unat (wordsize cfg * 8)) buf loc val)"
| "relocateType cfg pcc buf loc R_RISCV_HI20 val =
     Inr (relocHI20 (unat (wordsize cfg * 8)) buf loc val)"
| "relocateType cfg pcc buf loc R_RISCV_PCREL_LO12_I val = Inr (relocLO12_I buf loc val)"
| "relocateType cfg pcc buf loc R_RISCV_TPREL_LO12_I val = Inr (relocLO12_I buf loc val)"
| "relocateType cfg pcc buf loc R_RISCV_LO12_I val = Inr (relocLO12_I buf loc val)"
| "relocateType cfg pcc buf loc R_RISCV_PCREL_LO12_S val = Inr (relocLO12_S buf loc val)"
| "relocateType cfg pcc buf loc R_RISCV_TPREL_LO12_S val = Inr (relocLO12_S buf loc val)"
| "relocateType cfg pcc buf loc R_RISCV_LO12_S val = Inr (relocLO12_S buf loc val)"
| "relocateType cfg pcc buf loc R_RISCV_ADD8 val =
     Inr ([], write8 buf loc (read8 buf loc + ucast val))"
| "relocateType cfg pcc buf loc R_RISCV_ADD16 val =
     Inr ([], write16le buf loc (ucast (ucast (read16le buf loc) + val)))"
| "relocateType cfg pcc buf loc R_RISCV_ADD32 val =
     Inr ([], write32le buf loc (ucast (ucast (read32le buf loc) + val)))"
| "relocateType cfg pcc buf loc R_RISCV_ADD64 val =
     Inr ([], write64le buf loc (read64le buf loc + val))"
| "relocateType cfg pcc buf loc R_RISCV_SUB6 val =
     Inr ([], write8 buf loc
            (ucast ((ucast (read8 buf loc) AND 0xc0) OR
                    (((ucast (read8 buf loc) AND 0x3f) - val) AND 0x3f))))"
| "relocateType cfg pcc buf loc R_RISCV_SUB8 val =
     Inr ([], write8 buf loc (read8 buf loc - ucast val))"
| "relocateType cfg pcc buf loc R_RISCV_SUB16 val =
     Inr ([], write16le buf loc (ucast (ucast (read16le buf loc) - val)))"
| "relocateType cfg pcc buf loc R_RISCV_SUB32 val =
     Inr ([], write32le buf loc (ucast (ucast (read32le buf loc) - val)))"
| "relocateType cfg pcc buf loc R_RISCV_SUB64 val =
     Inr ([], write64le buf loc (read64le buf loc - val))"
| "relocateType cfg pcc buf loc R_RISCV_SET6 val =
     Inr ([], write8 buf loc
            (ucast ((ucast (read8 buf loc) AND 0xc0) OR (val AND 0x3f))))"
| "relocateType cfg pcc buf loc R_RISCV_SET8 val = Inr ([], write8 buf loc (ucast val))"
| "relocateType cfg pcc buf loc R_RISCV_SET16 val = Inr ([], write16le buf loc (ucast val))"
| "relocateType cfg pcc buf loc R_RISCV_SET32 val = Inr ([], write32le buf loc (ucast val))"
| "relocateType cfg pcc buf loc R_RISCV_32_PCREL val = Inr ([], write32le buf loc (ucast val))"
| "relocateType cfg pcc buf loc R_RISCV_TLS_DTPREL32 val =
     (if isCheriAbi cfg then Inr ([], write32le buf loc (ucast val))
      else Inr ([], write32le buf loc (ucast (val - dtpOffset))))"
| "relocateType cfg pcc buf loc R_RISCV_TLS_DTPREL64 val =
     (if isCheriAbi cfg then Inr ([], write64le buf loc val)
      else Inr ([], write64le buf loc (val - dtpOffset)))"
| "relocateType cfg pcc buf loc R_RISCV_RELAX val = Inr ([], buf)"
| "relocateType cfg pcc buf loc R_RISCV_CHERIOT_COMPARTMENT_LO_I val =
     Inr (relocCOMPARTMENT_LO_I pcc buf loc val)"
| "relocateType cfg pcc buf loc R_RISCV_CHERIOT_COMPARTMENT_SIZE val =
     Inr (relocCOMPARTMENT_SIZE buf loc val)"
| "relocateType cfg pcc buf loc R_RISCV_CHERIOT_COMPARTMENT_LO_S val =
     Inr (relocCOMPARTMENT_LO_S buf loc val)"
| "relocateType cfg pcc buf loc R_RISCV_CHERIOT_COMPARTMENT_HI val =
     Inr (relocCOMPARTMENT_HI pcc buf loc val)"
| "relocateType cfg pcc buf loc _ val = Inl Unreachable"

text \<open>\<^verbatim>\<open>void RISCV::relocate(uint8_t *loc, const Relocation &rel, uint64_t val)\<close>: the
  result is the list of diagnostics raised and the patched buffer.\<close>

definition relocate :: "Config \<Rightarrow> (nat \<Rightarrow> bool) \<Rightarrow> u8 list \<Rightarrow> nat \<Rightarrow> Relocation \<Rightarrow> u64 \<Rightarrow> abort + patch" where
  "relocate cfg isPCCRelative buf loc rel val =
     relocateType cfg (isPCCRelative (r_sym rel)) buf loc (r_type rel) val"


section \<open>Link state of the relaxation engine\<close>

definition SHF_EXECINSTR :: u64 where "SHF_EXECINSTR = 0x4"

text \<open>The \<^verbatim>\<open>e_flags\<close> bits of \<^verbatim>\<open>llvm/BinaryFormat/ELF.h\<close> (the header is not among
  the sources; the values are those of the RISC-V ELF psABI and of its CHERI
  extension).\<close>

definition EF_RISCV_RVC :: u32 where "EF_RISCV_RVC = 0x0001"
definition EF_RISCV_FLOAT_ABI :: u32 where "EF_RISCV_FLOAT_ABI = 0x0006"
definition EF_RISCV_RVE :: u32 where "EF_RISCV_RVE = 0x0008"
definition EF_RISCV_CHERIABI :: u32 where "EF_RISCV_CHERIABI = 0x00010000"
definition EF_RISCV_CAP_MODE :: u32 where "EF_RISCV_CAP_MODE = 0x00020000"

text \<open>A \<^verbatim>\<open>Defined\<close> symbol: owning file, section (\<open>None\<close> when the symbol is absolute
  or its section is not an \<^verbatim>\<open>InputSection\<close>), \<^verbatim>\<open>st_value\<close> and \<^verbatim>\<open>st_size\<close>. A \<^verbatim>\<open>Symbol\<close>
  that is not \<^verbatim>\<open>Defined\<close> is \<open>None\<close>. Symbols, sections and files are named by their
  index in the tables of the link state.\<close>

record Defined =
  d_file :: nat
  d_section :: "nat option"
  d_value :: u64
  d_size :: u64

type_synonym Symbol = "Defined option"

record SymbolAnchor =
  a_offset :: u64
  a_d :: nat
  a_end :: bool             \<comment> \<open>true for the anchor of \<^verbatim>\<open>st_value+st_size\<close>\<close>

record RISCVRelaxAux =
  anchors :: "SymbolAnchor list"
  relocDeltas :: "u32 list"
  relocTypes :: "RelType list"
  writes :: "u32 list"

text \<open>\<^verbatim>\<open>bytesDropped\<close> is declared in \<^verbatim>\<open>InputSection.h\<close> (not among the sources); it
  receives the 32-bit \<^verbatim>\<open>delta\<close> only after \<^verbatim>\<open>isUInt<16>(delta)\<close> has been checked.\<close>

record InputSection =
  s_flags :: u64
  relocations :: "Relocation list"
  rawData :: "u8 list"
  relaxAux :: "RISCVRelaxAux option"
  bytesDropped :: u32

record OutputSection =
  o_flags :: u64
  o_inputSections :: "nat list"        \<comment> \<open>\<^verbatim>\<open>getInputSections(osec)\<close>\<close>

record InputFile =
  f_eflags :: u32                      \<comment> \<open>\<^verbatim>\<open>getEFlags(f)\<close>\<close>
  f_symbols :: "nat list"              \<comment> \<open>\<^verbatim>\<open>file->getSymbols()\<close>\<close>

record LinkState =
  objectFiles :: "InputFile list"
  outputSections :: "OutputSection list"
  inputSections :: "InputSection list"
  symtab :: "Symbol list"

text \<open>What the engine asks of the rest of the linker (\<^verbatim>\<open>Symbols.h\<close>, \<^verbatim>\<open>Cheri.h\<close>,
  \<^verbatim>\<open>InputSection.h\<close>; none of them among the sources): the addresses of a symbol and of
  a section as last assigned, and the CHERIoT classification of a symbol. The symbol
  addresses may depend on the symbol values that the pass is changing.\<close>

record Env =
  getVA :: "Symbol list \<Rightarrow> nat \<Rightarrow> u64"
  getPltVA :: "Symbol list \<Rightarrow> nat \<Rightarrow> u64"
  secVA :: "nat \<Rightarrow> u64"
  isPCCRelative :: "nat \<Rightarrow> bool"
  getBiasedCGPOffset :: "Symbol list \<Rightarrow> nat \<Rightarrow> u64"
  getBiasedCGPOffsetLo12 :: "Symbol list \<Rightarrow> nat \<Rightarrow> u64"

definition getDefined :: "Symbol list \<Rightarrow> nat \<Rightarrow> Defined option" where
  "getDefined syms s = (if s < length syms then syms ! s else None)"

definition updDefined :: "Symbol list \<Rightarrow> nat \<Rightarrow> (Defined \<Rightarrow> Defined) \<Rightarrow> Symbol list" where
  "updDefined syms s f = (case getDefined syms s of None \<Rightarrow> syms | Some d \<Rightarrow> syms[s := Some (f d)])"


section \<open>\<^verbatim>\<open>initSymbolAnchors\<close> (lines 663--706)\<close>

definition freshAux :: "InputSection \<Rightarrow> InputSection" where
  "freshAux sec =
     sec\<lparr>relaxAux := Some \<lparr>anchors = [],
                            relocDeltas = replicate (length (relocations sec)) 0,
                            relocTypes = replicate (length (relocations sec)) R_RISCV_NONE,
                            writes = []\<rparr>\<rparr>"

text \<open>The input sections of the executable output sections, in the order of the
  nested loops over \<^verbatim>\<open>outputSections\<close> and \<^verbatim>\<open>getInputSections(osec)\<close>.\<close>

definition execInputSections :: "LinkState \<Rightarrow> nat list" where
  "execInputSections S =
     concat (map o_inputSections
       (filter (\<lambda>osec. o_flags osec AND SHF_EXECINSTR \<noteq> 0) (outputSections S)))"

definition updSection :: "nat \<Rightarrow> (InputSection \<Rightarrow> InputSection) \<Rightarrow> LinkState \<Rightarrow> LinkState" where
  "updSection k f S =
     (if k < length (inputSections S)
      then S\<lparr>inputSections := (inputSections S)[k := f (inputSections S ! k)]\<rparr> else S)"

definition pushAnchors :: "SymbolAnchor list \<Rightarrow> InputSection \<Rightarrow> InputSection" where
  "pushAnchors new sec =
     (case relaxAux sec of None \<Rightarrow> sec
      | Some aux \<Rightarrow> sec\<lparr>relaxAux := Some (aux\<lparr>anchors := anchors aux @ new\<rparr>)\<rparr>)"

text \<open>The body of the loop over the symbols of a file: \<open>fi\<close> is the file, \<open>s\<close> the symbol.\<close>

definition anchorSymbol :: "nat \<Rightarrow> nat \<Rightarrow> LinkState \<Rightarrow> LinkState" where
  "anchorSymbol fi s S =
     (case getDefined (symtab S) s of
        None \<Rightarrow> S
      | Some d \<Rightarrow>
          if d_file d \<noteq> fi then S
          else (case d_section d of
                  None \<Rightarrow> S
                | Some k \<Rightarrow>
                    if k < length (inputSections S) \<and>
                       s_flags (inputSections S ! k) AND SHF_EXECINSTR \<noteq> 0 \<and>
                       relaxAux (inputSections S ! k) \<noteq> None
                    then updSection k
                           (pushAnchors [\<lparr>a_offset = d_value d, a_d = s, a_end = False\<rparr>,
                                         \<lparr>a_offset = d_value d + d_size d, a_d = s, a_end = True\<rparr>]) S
                    else S))"

definition anchorFile :: "nat \<Rightarrow> LinkState \<Rightarrow> LinkState" where
  "anchorFile fi S = fold (anchorSymbol fi) (f_symbols (objectFiles S ! fi)) S"

text \<open>\<^verbatim>\<open>llvm::sort\<close> by \<^verbatim>\<open>std::make_pair(a.offset, a.end)\<close>. The order in which it leaves
  anchors of equal key is not specified; the model takes the one of insertion sort.\<close>

definition anchorKey :: "SymbolAnchor \<Rightarrow> u64 \<times> bool" where
  "anchorKey a = (a_offset a, a_end a)"

definition sortAnchors :: "InputSection \<Rightarrow> InputSection" where
  "sortAnchors sec =
     (case relaxAux sec of None \<Rightarrow> sec
      | Some aux \<Rightarrow> sec\<lparr>relaxAux := Some (aux\<lparr>anchors := sort_key anchorKey (anchors aux)\<rparr>)\<rparr>)"

definition initSymbolAnchors :: "LinkState \<Rightarrow> LinkState" where
  "initSymbolAnchors S =
     (let S1 = fold (\<lambda>k. updSection k freshAux) (execInputSections S) S;
          S2 = fold anchorFile [0 ..< length (objectFiles S1)] S1
      in fold (\<lambda>k. updSection k sortAnchors) (execInputSections S2) S2)"


section \<open>\<^verbatim>\<open>relaxCall\<close> and \<^verbatim>\<open>relaxCGP\<close> (lines 708--773)\<close>

text \<open>Both receive the section, the index \<open>i\<close> of the relocation, its would-be address
  \<open>loc\<close>, the relocation and a reference to \<^verbatim>\<open>remove\<close>; they change
  \<^verbatim>\<open>relocTypes[i]\<close>, \<^verbatim>\<open>writes\<close> and \<^verbatim>\<open>remove\<close>.\<close>

definition relaxCall ::
  "Env \<Rightarrow> Config \<Rightarrow> Symbol list \<Rightarrow> u8 list \<Rightarrow> nat \<Rightarrow> u64 \<Rightarrow> Relocation \<Rightarrow>
   RISCVRelaxAux \<times> u32 \<Rightarrow> RISCVRelaxAux \<times> u32" where
  "relaxCall env cfg syms raw i loc r ar =
     (let (aux, remove) = ar;
          jalRVCType = (if r_type r = R_RISCV_CHERI_CCALL then R_RISCV_CHERI_RVC_CJUMP
                        else R_RISCV_RVC_JUMP);
          jalType = (if r_type r = R_RISCV_CHERI_CCALL then R_RISCV_CHERI_CJAL
                     else R_RISCV_JAL);
          rvc = (eflags cfg AND EF_RISCV_RVC \<noteq> 0);
          insnPair = read64le raw (unat (r_offset r));
          rd = extractBits insnPair (32 + 11) (32 + 7);
          dest = (if r_expr r = R_PLT_PC then getPltVA env syms (r_sym r)
                  else getVA env syms (r_sym r)) + r_addend r;
          displace = dest - loc
      in if rvc \<and> isInt 12 displace \<and> rd = 0
         then (aux\<lparr>relocTypes := (relocTypes aux)[i := jalRVCType],
                    writes := writes aux @ [0xa001]\<rparr>, 6)
         else if rvc \<and> isInt 12 displace \<and> rd = X_RA \<and> \<not> is64 cfg
         then (aux\<lparr>relocTypes := (relocTypes aux)[i := jalRVCType],
                    writes := writes aux @ [0x2001]\<rparr>, 6)
         else if isInt 21 displace
         then (aux\<lparr>relocTypes := (relocTypes aux)[i := jalType],
                    writes := writes aux @ [0x6f OR push_bit 7 rd]\<rparr>, 4)
         else (aux, remove))"

definition relaxCGP ::
  "Env \<Rightarrow> Symbol list \<Rightarrow> u8 list \<Rightarrow> nat \<Rightarrow> u64 \<Rightarrow> Relocation \<Rightarrow>
   RISCVRelaxAux \<times> u32 \<Rightarrow> RISCVRelaxAux \<times> u32" where
  "relaxCGP env syms raw i loc r ar =
     (let (aux, remove) = ar
      in if isPCCRelative env (r_sym r) then (aux, remove)
         else
           (let hival = getBiasedCGPOffset env syms (r_sym r)
                          - getBiasedCGPOffsetLo12 env syms (r_sym r)
            in if hival \<noteq> 0 then (aux, remove)
               else
                 (let insn = read32le raw (unat (r_offset r));
                      insn' = (insn AND NOT (push_bit 15 31)) OR push_bit 15 3
                  in if r_type r = R_RISCV_CHERIOT_COMPARTMENT_HI
                     then (aux\<lparr>relocTypes := (relocTypes aux)[i := R_RISCV_RELAX]\<rparr>, 4)
                     else if r_type r = R_RISCV_CHERIOT_COMPARTMENT_LO_I
                     then (aux\<lparr>relocTypes :=
                                  (relocTypes aux)[i := R_RISCV_CHERIOT_COMPARTMENT_LO_I],
                                writes := writes aux @ [insn']\<rparr>, remove)
                     else if r_type r = R_RISCV_CHERIOT_COMPARTMENT_LO_S
                     then (aux\<lparr>relocTypes :=
                                  (relocTypes aux)[i := R_RISCV_CHERIOT_COMPARTMENT_LO_I],
                                writes := writes aux @ [insn']\<rparr>, remove)
                     else (aux, remove))))"


section \<open>\<^verbatim>\<open>rewriteCheriotLowRelocs\<close> (lines 794--842)\<close>

text \<open>\<^verbatim>\<open>std::equal_range\<close> on the relocations of the target section (sorted by offset)
  followed by the scan for the first \<^verbatim>\<open>R_RISCV_CHERIOT_COMPARTMENT_HI\<close>: the first
  relocation at that offset with that type.\<close>

definition findHiReloc :: "Relocation list \<Rightarrow> u64 \<Rightarrow> Relocation option" where
  "findHiReloc rels off =
     List.find (\<lambda>t. r_offset t = off \<and> r_type t = R_RISCV_CHERIOT_COMPARTMENT_HI) rels"

text \<open>One iteration, for the relocation at index \<open>i\<close> of section \<open>k\<close>. After
  \<^verbatim>\<open>error(...)\<close> has returned, the source goes on to \<^verbatim>\<open>cast\<close> a null section, or to
  dereference the null \<^verbatim>\<open>target\<close>: the run ends there.\<close>

definition rewriteLowReloc :: "Env \<Rightarrow> nat \<Rightarrow> nat \<Rightarrow> bool \<times> LinkState \<Rightarrow> abort + bool \<times> LinkState" where
  "rewriteLowReloc env k i ms =
     (let (modified, S) = ms;
          r = relocations (inputSections S ! k) ! i
      in if r_type r \<noteq> R_RISCV_CHERIOT_COMPARTMENT_LO_I then Inr (modified, S)
         else if \<not> isPCCRelative env (r_sym r) then Inr (modified, S)
         else
           (case getDefined (symtab S) (r_sym r) of
              None \<Rightarrow> Inl AssertionFailed
            | Some d \<Rightarrow>
                (case d_section d of
                   None \<Rightarrow> Inl NullDereference
                 | Some isec \<Rightarrow>
                     (case findHiReloc (relocations (inputSections S ! isec)) (d_value d) of
                        None \<Rightarrow> Inl NullDereference
                      | Some target \<Rightarrow>
                          if isPCCRelative env (r_sym target) then Inr (modified, S)
                          else Inr (True,
                                 updSection k
                                   (\<lambda>sec. sec\<lparr>relocations :=
                                      (relocations sec)[i := r\<lparr>r_sym := r_sym target,
                                                               r_addend := r_addend target\<rparr>]\<rparr>)
                                   S)))))"

fun rewriteLoop :: "Env \<Rightarrow> nat \<Rightarrow> nat list \<Rightarrow> bool \<times> LinkState \<Rightarrow> abort + bool \<times> LinkState" where
  "rewriteLoop env k [] ms = Inr ms"
| "rewriteLoop env k (i # is) ms =
     (case rewriteLowReloc env k i ms of
        Inl e \<Rightarrow> Inl e
      | Inr ms' \<Rightarrow> rewriteLoop env k is ms')"

definition rewriteCheriotLowRelocs :: "Env \<Rightarrow> nat \<Rightarrow> LinkState \<Rightarrow> abort + bool \<times> LinkState" where
  "rewriteCheriotLowRelocs env k S =
     rewriteLoop env k [0 ..< length (relocations (inputSections S ! k))] (False, S)"


section \<open>\<^verbatim>\<open>relax\<close> (lines 844--929)\<close>

text \<open>Modelled from the spec: \<^verbatim>\<open>PowerOf2Ceil\<close> is a function of
  \<^verbatim>\<open>llvm/Support/MathExtras.h\<close>, not among the sources. The spec (4.G): the addend of an
  \<^verbatim>\<open>ALIGN\<close> relocation is the desired alignment minus 2, the alignment a power of two.
  This is the library's bit-smearing computation: the least power of two that is at
  least \<open>a\<close>, and 0 for 0.\<close>

definition NextPowerOf2 :: "u64 \<Rightarrow> u64" where
  "NextPowerOf2 a =
     (let a = a OR drop_bit 1 a; a = a OR drop_bit 2 a; a = a OR drop_bit 4 a;
          a = a OR drop_bit 8 a; a = a OR drop_bit 16 a; a = a OR drop_bit 32 a
      in a + 1)"

definition PowerOf2Ceil :: "u64 \<Rightarrow> u64" where
  "PowerOf2Ceil a = (if a = 0 then 0 else NextPowerOf2 (a - 1))"

text \<open>\<^verbatim>\<open>DenseMap<const Defined *, uint64_t> valueDelta\<close>. The second loop reads it with
  \<^verbatim>\<open>valueDelta.find(d)->second\<close> for the start anchors only, each of which the first
  loop has inserted.\<close>

type_synonym valueDelta = "nat \<rightharpoonup> u64"

definition vdFind :: "valueDelta \<Rightarrow> nat \<Rightarrow> u64" where
  "vdFind vd d = (case vd d of None \<Rightarrow> 0 | Some v \<Rightarrow> v)"

text \<open>First loop (lines 858--866): the \<^verbatim>\<open>st_value\<close> delta of the previous pass.
  \<open>drainVD\<close> is the inner \<^verbatim>\<open>for\<close> over the anchors with \<^verbatim>\<open>sa[0].offset <= offset\<close>.\<close>

fun drainVD :: "u64 \<Rightarrow> u32 \<Rightarrow> SymbolAnchor list \<Rightarrow> valueDelta \<Rightarrow> SymbolAnchor list \<times> valueDelta" where
  "drainVD off delta [] vd = ([], vd)"
| "drainVD off delta (a # sa) vd =
     (if a_offset a \<le> off
      then drainVD off delta sa (if \<not> a_end a then vd(a_d a \<mapsto> ucast delta) else vd)
      else (a # sa, vd))"

fun valueDeltaLoop ::
  "Relocation list \<Rightarrow> u32 list \<Rightarrow> u32 \<Rightarrow> SymbolAnchor list \<Rightarrow> valueDelta \<Rightarrow>
   u32 \<times> SymbolAnchor list \<times> valueDelta" where
  "valueDeltaLoop [] ds delta sa vd = (delta, sa, vd)"
| "valueDeltaLoop (r # rs) ds delta sa vd =
     (let (sa', vd') = drainVD (r_offset r) delta sa vd
      in valueDeltaLoop rs (tl ds) (hd ds) sa' vd')"

definition valueDeltaRest :: "u32 \<Rightarrow> SymbolAnchor list \<Rightarrow> valueDelta \<Rightarrow> valueDelta" where
  "valueDeltaRest delta sa vd =
     fold (\<lambda>a vd. if \<not> a_end a then vd(a_d a \<mapsto> ucast delta) else vd) sa vd"

definition computeValueDelta :: "Relocation list \<Rightarrow> u32 list \<Rightarrow> SymbolAnchor list \<Rightarrow> valueDelta" where
  "computeValueDelta rels ds sa0 =
     (let (delta, sa, vd) = valueDeltaLoop rels ds 0 sa0 Map.empty
      in valueDeltaRest delta sa vd)"

text \<open>The update of one anchor's symbol (lines 906--909 and 919--922).\<close>

definition adjustAnchor :: "u32 \<Rightarrow> valueDelta \<Rightarrow> SymbolAnchor \<Rightarrow> Symbol list \<Rightarrow> Symbol list" where
  "adjustAnchor delta vd a syms =
     (if a_end a
      then updDefined syms (a_d a) (\<lambda>d. d\<lparr>d_size := a_offset a - ucast delta - d_value d\<rparr>)
      else updDefined syms (a_d a)
             (\<lambda>d. d\<lparr>d_value := d_value d - (ucast delta - vdFind vd (a_d a))\<rparr>))"

fun drainAnchors ::
  "u64 \<Rightarrow> u32 \<Rightarrow> valueDelta \<Rightarrow> SymbolAnchor list \<Rightarrow> Symbol list \<Rightarrow> SymbolAnchor list \<times> Symbol list" where
  "drainAnchors off delta vd [] syms = ([], syms)"
| "drainAnchors off delta vd (a # sa) syms =
     (if a_offset a \<le> off
      then drainAnchors off delta vd sa (adjustAnchor delta vd a syms)
      else (a # sa, syms))"

text \<open>The \<^verbatim>\<open>switch (r.type)\<close> of the second loop: the new \<^verbatim>\<open>relocTypes\<close>/\<^verbatim>\<open>writes\<close> and
  \<^verbatim>\<open>remove\<close>. The \<^verbatim>\<open>assert\<close> of the \<^verbatim>\<open>R_RISCV_ALIGN\<close> case ends the run when it fails.\<close>

definition followedByRelax :: "Relocation list \<Rightarrow> nat \<Rightarrow> bool" where
  "followedByRelax rels i \<longleftrightarrow> i + 1 \<noteq> length rels \<and> r_type (rels ! (i + 1)) = R_RISCV_RELAX"

definition relaxSwitch ::
  "Env \<Rightarrow> Config \<Rightarrow> Symbol list \<Rightarrow> u8 list \<Rightarrow> Relocation list \<Rightarrow> nat \<Rightarrow> u64 \<Rightarrow> Relocation \<Rightarrow>
   RISCVRelaxAux \<Rightarrow> abort + RISCVRelaxAux \<times> u32" where
  "relaxSwitch env cfg syms raw rels i loc r aux =
     (if r_type r = R_RISCV_ALIGN then
        (let nextLoc = loc + r_addend r;
             align = PowerOf2Ceil (r_addend r + 2);
             remove = (ucast (nextLoc - ((loc + align - 1) AND (- align))) :: u32)
         in if 0 \<le> sint remove then Inr (aux, remove) else Inl AssertionFailed)
      else if r_type r \<in> {R_RISCV_CALL, R_RISCV_CALL_PLT, R_RISCV_CHERI_CCALL} then
        (if followedByRelax rels i
         then Inr (relaxCall env cfg syms raw i loc r (aux, 0)) else Inr (aux, 0))
      else if r_type r \<in> {R_RISCV_CHERIOT_COMPARTMENT_HI, R_RISCV_CHERIOT_COMPARTMENT_LO_I,
                           R_RISCV_CHERIOT_COMPARTMENT_LO_S} then
        (if followedByRelax rels i
         then Inr (relaxCGP env syms raw i loc r (aux, 0)) else Inr (aux, 0))
      else Inr (aux, 0))"

text \<open>The state of the second loop: the aux record of the section, the symbol table,
  the anchors not yet drained, \<^verbatim>\<open>delta\<close> and \<^verbatim>\<open>changed\<close>.\<close>

record loopState =
  ls_aux :: RISCVRelaxAux
  ls_syms :: "Symbol list"
  ls_sa :: "SymbolAnchor list"
  ls_delta :: u32
  ls_changed :: bool

definition relaxStep ::
  "Env \<Rightarrow> Config \<Rightarrow> u64 \<Rightarrow> u8 list \<Rightarrow> Relocation list \<Rightarrow> valueDelta \<Rightarrow> nat \<Rightarrow> Relocation \<Rightarrow>
   loopState \<Rightarrow> abort + loopState" where
  "relaxStep env cfg secAddr raw rels vd i r st =
     (let loc = secAddr + r_offset r - ucast (ls_delta st);
          cur = relocDeltas (ls_aux st) ! i
      in case relaxSwitch env cfg (ls_syms st) raw rels i loc r (ls_aux st) of
           Inl e \<Rightarrow> Inl e
         | Inr (aux1, remove) \<Rightarrow>
             (let (sa', syms') = drainAnchors (r_offset r) (ls_delta st) vd (ls_sa st) (ls_syms st);
                  delta' = ls_delta st + remove
              in Inr \<lparr>ls_aux = (if delta' \<noteq> cur
                                then aux1\<lparr>relocDeltas := (relocDeltas aux1)[i := delta']\<rparr>
                                else aux1),
                      ls_syms = syms', ls_sa = sa', ls_delta = delta',
                      ls_changed = (ls_changed st \<or> delta' \<noteq> cur)\<rparr>))"

fun relaxLoop ::
  "Env \<Rightarrow> Config \<Rightarrow> u64 \<Rightarrow> u8 list \<Rightarrow> Relocation list \<Rightarrow> valueDelta \<Rightarrow> nat \<Rightarrow> Relocation list \<Rightarrow>
   loopState \<Rightarrow> abort + loopState" where
  "relaxLoop env cfg secAddr raw rels vd i [] st = Inr st"
| "relaxLoop env cfg secAddr raw rels vd i (r # rs) st =
     (case relaxStep env cfg secAddr raw rels vd i r st of
        Inl e \<Rightarrow> Inl e
      | Inr st' \<Rightarrow> relaxLoop env cfg secAddr raw rels vd (i + 1) rs st')"

text \<open>The body of \<^verbatim>\<open>relax\<close> after the CHERIoT pre-pass, on one section and the symbol
  table: the result is \<^verbatim>\<open>changed\<close>, the section and the symbol table.\<close>

definition relaxSection ::
  "Env \<Rightarrow> Config \<Rightarrow> u64 \<Rightarrow> bool \<Rightarrow> InputSection \<Rightarrow> Symbol list \<Rightarrow>
   abort + bool \<times> InputSection \<times> Symbol list" where
  "relaxSection env cfg secAddr changed0 sec syms =
     (case relaxAux sec of
        None \<Rightarrow> Inl NullDereference
      | Some aux \<Rightarrow>
          (let rels = relocations sec;
               vd = computeValueDelta rels (relocDeltas aux) (anchors aux);
               st0 = \<lparr>ls_aux = aux\<lparr>relocTypes := replicate (length rels) R_RISCV_NONE,
                                       writes := []\<rparr>,
                      ls_syms = syms, ls_sa = anchors aux, ls_delta = 0,
                      ls_changed = changed0\<rparr>
           in case relaxLoop env cfg secAddr (rawData sec) rels vd 0 rels st0 of
                Inl e \<Rightarrow> Inl e
              | Inr st \<Rightarrow>
                  (let syms' = fold (adjustAnchor (ls_delta st) vd) (ls_sa st) (ls_syms st)
                   in if \<not> isUInt 16 (ucast (ls_delta st))
                      then Inl (Fatal ''section size decrease is too large'')
                      else Inr (ls_changed st,
                                sec\<lparr>relaxAux := Some (ls_aux st), bytesDropped := ls_delta st\<rparr>,
                                syms'))))"

text \<open>\<^verbatim>\<open>static bool relax(InputSection &sec, int pass)\<close>, for the section of index \<open>k\<close>.\<close>

definition relax :: "Env \<Rightarrow> Config \<Rightarrow> nat \<Rightarrow> int \<Rightarrow> LinkState \<Rightarrow> abort + bool \<times> LinkState" where
  "relax env cfg k pass S =
     (case (if pass = 0 then rewriteCheriotLowRelocs env k S else Inr (False, S)) of
        Inl e \<Rightarrow> Inl e
      | Inr (changed0, S1) \<Rightarrow>
          (case relaxSection env cfg (secVA env k) changed0 (inputSections S1 ! k) (symtab S1) of
             Inl e \<Rightarrow> Inl e
           | Inr (changed, sec', syms') \<Rightarrow>
               Inr (changed, S1\<lparr>inputSections := (inputSections S1)[k := sec'],
                                 symtab := syms'\<rparr>)))"


section \<open>\<^verbatim>\<open>RISCV::relaxOnce\<close> (lines 938--955)\<close>

fun relaxSections ::
  "Env \<Rightarrow> Config \<Rightarrow> int \<Rightarrow> nat list \<Rightarrow> bool \<times> LinkState \<Rightarrow> abort + bool \<times> LinkState" where
  "relaxSections env cfg pass [] cs = Inr cs"
| "relaxSections env cfg pass (k # ks) cs =
     (case relax env cfg k pass (snd cs) of
        Inl e \<Rightarrow> Inl e
      | Inr (c, S') \<Rightarrow> relaxSections env cfg pass ks (fst cs \<or> c, S'))"

definition relaxOnce :: "Env \<Rightarrow> Config \<Rightarrow> int \<Rightarrow> LinkState \<Rightarrow> abort + bool \<times> LinkState" where
  "relaxOnce env cfg pass S =
     (if relocatable cfg then Inr (False, S)
      else
        (let S1 = (if pass = 0 then initSymbolAnchors S else S)
         in relaxSections env cfg pass (execInputSections S1) (False, S1)))"


section \<open>\<^verbatim>\<open>RISCV::calcEFlags\<close> (lines 141--172)\<close>

text \<open>One iteration of the loop, for the object of index \<open>fi\<close> with flags \<open>ef\<close>: the
  errors it reports and the new \<^verbatim>\<open>target\<close>.\<close>

definition eflagsStep :: "nat \<Rightarrow> u32 \<Rightarrow> u32 \<Rightarrow> diag list \<times> u32" where
  "eflagsStep fi ef target0 =
     (let target = (if ef AND EF_RISCV_RVC \<noteq> 0 then target0 OR EF_RISCV_RVC else target0)
      in ((if ef AND EF_RISCV_FLOAT_ABI \<noteq> target AND EF_RISCV_FLOAT_ABI
           then [LinkError ''cannot link object files with different floating-point ABI'' fi]
           else []) @
          (if ef AND EF_RISCV_RVE \<noteq> target AND EF_RISCV_RVE
           then [LinkError ''cannot link object files with different EF_RISCV_RVE'' fi]
           else []) @
          (if ef AND EF_RISCV_CHERIABI \<noteq> target AND EF_RISCV_CHERIABI
           then [LinkError ''cannot link object files with different EF_RISCV_CHERIABI'' fi]
           else []) @
          (if ef AND EF_RISCV_CAP_MODE \<noteq> target AND EF_RISCV_CAP_MODE
           then [LinkError ''cannot link object files with different EF_RISCV_CAP_MODE'' fi]
           else []),
          target))"

fun calcEFlagsLoop :: "nat \<Rightarrow> InputFile list \<Rightarrow> diag list \<times> u32 \<Rightarrow> diag list \<times> u32" where
  "calcEFlagsLoop fi [] et = et"
| "calcEFlagsLoop fi (f # fs) et =
     (let (errs, target) = eflagsStep fi (f_eflags f) (snd et)
      in calcEFlagsLoop (fi + 1) fs (fst et @ errs, target))"

text \<open>The result is the list of errors reported and the value returned.\<close>

definition calcEFlags :: "InputFile list \<Rightarrow> diag list \<times> u32" where
  "calcEFlags files =
     (case files of
        [] \<Rightarrow> ([], 0)
      | f # _ \<Rightarrow> calcEFlagsLoop 0 files ([], f_eflags f))"


section \<open>\<^verbatim>\<open>RISCV::writePltHeader\<close> (lines 229--270)\<close>

text \<open>Set by the constructor \<^verbatim>\<open>RISCV::RISCV()\<close>.\<close>

definition pltHeaderSize :: u32 where "pltHeaderSize = 32"
definition pltEntrySize :: u32 where "pltEntrySize = 16"

definition memset0 :: "u8 list \<Rightarrow> nat \<Rightarrow> u8 list" where
  "memset0 buf n = fold (\<lambda>i b. b[i := 0]) [0 ..< n] buf"

text \<open>\<open>gotPltVA\<close> and \<open>pltVA\<close> are \<^verbatim>\<open>in.gotPlt->getVA()\<close> and \<^verbatim>\<open>in.plt->getVA()\<close>; the buffer
  starts at the pointer \<^verbatim>\<open>buf\<close>.\<close>

definition writePltHeader :: "Config \<Rightarrow> u64 \<Rightarrow> u64 \<Rightarrow> u8 list \<Rightarrow> u8 list" where
  "writePltHeader cfg gotPltVA pltVA buf =
     (if isCheriAbi cfg then memset0 buf (unat pltHeaderSize)
      else
        (let offset = (ucast (gotPltVA - pltVA) :: u32);
             ptrsub = (if isCheriAbi cfg then CSub else SUB);
             ptrload = (if isCheriAbi cfg then (if is64 cfg then CLC_128 else CLC_64)
                        else (if is64 cfg then LD else LW));
             ptraddi = (if isCheriAbi cfg then CIncOffsetImm else ADDI);
             shift = (2 - of_bool (is64 cfg) - of_bool (isCheriAbi cfg) :: u32);
             ptrsize = (if isCheriAbi cfg then capabilitySize cfg else wordsize cfg);
             z = (if shift = 0 then 1 else 0 :: nat);
             buf = write32le buf 0 (utype AUIPC X_T2 (hi20 offset));
             buf = write32le buf 4 (rtype ptrsub X_T1 X_T1 X_T3);
             buf = write32le buf 8 (itype ptrload X_T3 X_T2 (lo12 offset));
             buf = write32le buf 12 (itype ADDI X_T1 X_T1 (- pltHeaderSize - 12));
             buf = write32le buf 16 (itype ptraddi X_T0 X_T2 (lo12 offset));
             buf = (if shift \<noteq> 0 then write32le buf 20 (itype SRLI X_T1 X_T1 shift) else buf);
             buf = write32le buf (24 - 4 * z) (itype ptrload X_T0 X_T0 ptrsize);
             buf = write32le buf (28 - 4 * z) (itype JALR 0 X_T3 0)
         in if shift = 0 then write32le buf 28 (itype ADDI 0 0 0) else buf))"

text \<open>The layout in the words of the spec (4.D): the eight instructions of the listing,
  followed by a \<^verbatim>\<open>nop\<close> that is elided if the shift is 0. \<open>ptrload\<close>, \<open>ptrsize\<close> and
  \<open>shift\<close> are the ABI parameters.\<close>

definition spec_pltHeader :: "u32 \<Rightarrow> u32 \<Rightarrow> u32 \<Rightarrow> u32 \<Rightarrow> u32 list" where
  "spec_pltHeader ptrload ptrsize shift offset =
     [utype AUIPC X_T2 (hi20 offset),
      rtype SUB X_T1 X_T1 X_T3,
      itype ptrload X_T3 X_T2 (lo12 offset),
      itype ADDI X_T1 X_T1 (- pltHeaderSize - 12),
      itype ADDI X_T0 X_T2 (lo12 offset),
      itype SRLI X_T1 X_T1 shift,
      itype ptrload X_T0 X_T0 ptrsize,
      itype JALR 0 X_T3 0] @
     (if shift = 0 then [] else [itype ADDI 0 0 0])"


section \<open>Compartment exports (RISCVAsmPrinter.cpp, lines 1249--1348)\<close>

datatype CallingConv = CHERI_CCallee | CHERI_LibCall | OtherCallingConv

datatype MCPhysReg = RegC nat | RegX nat      \<comment> \<open>capability and integer registers\<close>

text \<open>What \<^verbatim>\<open>runOnMachineFunction\<close> reads of a \<^verbatim>\<open>MachineFunction\<close> and its IR function.\<close>

record MachineFunction =
  mf_name :: string
  mf_callingConv :: CallingConv
  mf_interruptState :: "string option"   \<comment> \<open>attribute \<^verbatim>\<open>interrupt-state\<close>, if present\<close>
  mf_compartment :: string               \<comment> \<open>attribute \<^verbatim>\<open>cheri-compartment\<close>\<close>
  mf_liveIns :: "MCPhysReg list"
  mf_stackSize :: u64                    \<comment> \<open>\<^verbatim>\<open>MF.getFrameInfo().getStackSize()\<close>\<close>

record CompartmentExport =
  CompartmentName :: string
  FnName :: string                       \<comment> \<open>the IR function \<^verbatim>\<open>Fn\<close>\<close>
  FnSym :: string
  LiveIns :: u32                         \<comment> \<open>\<^verbatim>\<open>int\<close>\<close>
  forceLocal :: bool
  stackSize :: u32

definition interruptFlagOf :: "string option \<Rightarrow> u32" where
  "interruptFlagOf a =
     (case a of
        None \<Rightarrow> 0
      | Some v \<Rightarrow> if v = ''enabled'' then push_bit 3 1
                  else if v = ''disabled'' then push_bit 3 2 else 0)"

definition ArgGPCRsE :: "MCPhysReg list" where
  "ArgGPCRsE = [RegC 10, RegC 11, RegC 12, RegC 13, RegC 14, RegC 15, RegC 5]"

text \<open>The inner loop of \<^verbatim>\<open>countUsedArgRegisters\<close> over \<open>i\<close>, from \<open>i\<close> on: the first \<open>i\<close>
  whose register is \<open>li\<close> or has it as a sub-register raises \<^verbatim>\<open>NumArgRegs\<close> to \<open>i + 1\<close>.
  \<open>isSub\<close> is \<^verbatim>\<open>TRI->isSubRegister\<close>.\<close>

fun argRegScan :: "(MCPhysReg \<Rightarrow> MCPhysReg \<Rightarrow> bool) \<Rightarrow> MCPhysReg \<Rightarrow> nat \<Rightarrow> MCPhysReg list \<Rightarrow> u32 \<Rightarrow> u32" where
  "argRegScan isSub li i [] n = n"
| "argRegScan isSub li i (a # as) n =
     (if a = li \<or> isSub a li then max n (of_nat (i + 1))
      else argRegScan isSub li (i + 1) as n)"

definition countUsedArgRegisters :: "(MCPhysReg \<Rightarrow> MCPhysReg \<Rightarrow> bool) \<Rightarrow> MachineFunction \<Rightarrow> u32" where
  "countUsedArgRegisters isSub mf =
     fold (\<lambda>li n. argRegScan isSub li 0 ArgGPCRsE n) (mf_liveIns mf) 0"

text \<open>The tail of \<^verbatim>\<open>runOnMachineFunction\<close>: the entry pushed to \<^verbatim>\<open>CompartmentEntries\<close>,
  if any.\<close>

definition runOnMachineFunction ::
  "(MCPhysReg \<Rightarrow> MCPhysReg \<Rightarrow> bool) \<Rightarrow> MachineFunction \<Rightarrow> CompartmentExport list \<Rightarrow> CompartmentExport list" where
  "runOnMachineFunction isSub mf entries =
     (let interruptFlag = interruptFlagOf (mf_interruptState mf);
          liveIns = countUsedArgRegisters isSub mf + interruptFlag
      in if mf_callingConv mf = CHERI_CCallee
         then entries @ [\<lparr>CompartmentName = mf_compartment mf, FnName = mf_name mf,
                           FnSym = mf_name mf, LiveIns = liveIns, forceLocal = False,
                           stackSize = ucast (mf_stackSize mf)\<rparr>]
         else if mf_callingConv mf = CHERI_LibCall
         then entries @ [\<lparr>CompartmentName = ''libcalls'', FnName = mf_name mf,
                           FnSym = mf_name mf, LiveIns = liveIns, forceLocal = False,
                           stackSize = 0\<rparr>]
         else if interruptFlag \<noteq> 0
         then entries @ [\<lparr>CompartmentName = mf_compartment mf, FnName = mf_name mf,
                           FnSym = mf_name mf, LiveIns = liveIns, forceLocal = True,
                           stackSize = 0\<rparr>]
         else entries)"

text \<open>Modelled from the spec: the \<^verbatim>\<open>MCStreamer\<close> and \<^verbatim>\<open>AsmPrinter::emitLabelDifference\<close>
  are not among the sources. The spec (4.H): the section \<^verbatim>\<open>.compartment_exports\<close> is
  aligned to 4; a record starts with the 2-byte label difference
  \<^verbatim>\<open>fnSym - __compartment_pcc_start\<close>; \<^verbatim>\<open>emitIntValue(v, 1)\<close> emits one byte. The section is
  the list of its bytes; \<open>addr\<close> gives the address of a label.\<close>

definition emitValueToAlignment :: "nat \<Rightarrow> u8 list \<Rightarrow> u8 list" where
  "emitValueToAlignment n out = out @ replicate ((n - length out mod n) mod n) 0"

definition emitLabelDifference :: "(string \<Rightarrow> u64) \<Rightarrow> string \<Rightarrow> string \<Rightarrow> u8 list \<Rightarrow> u8 list" where
  "emitLabelDifference addr hi lo out =
     (let v = (ucast (addr hi - addr lo) :: u16) in out @ [ucast v, ucast (drop_bit 8 v)])"

definition emitIntValue1 :: "u64 \<Rightarrow> u8 list \<Rightarrow> u8 list" where
  "emitIntValue1 v out = out @ [ucast v]"

text \<open>The body of the loop of \<^verbatim>\<open>emitEndOfAsmFile\<close> over \<^verbatim>\<open>CompartmentEntries\<close> (lines
  1337--1346), as far as it emits bytes.\<close>

definition emitExport :: "(string \<Rightarrow> u64) \<Rightarrow> CompartmentExport \<Rightarrow> u8 list \<Rightarrow> u8 list" where
  "emitExport addr e out =
     (let out = emitValueToAlignment 4 out;
          out = emitLabelDifference addr (FnSym e) ''__compartment_pcc_start'' out;
          stackSize = (stackSize e + 7) div 8;
          out = emitIntValue1 (ucast (min 255 stackSize)) out
      in emitIntValue1 (ucast (LiveIns e)) out)"

definition emitExports :: "(string \<Rightarrow> u64) \<Rightarrow> CompartmentExport list \<Rightarrow> u8 list" where
  "emitExports addr entries = fold (emitExport addr) entries []"

text \<open>The fourth byte of a record in the words of the spec (4.H):
  \<^verbatim>\<open>(usedArgRegs) | (interruptFlag << 3)\<close> with \<^verbatim>\<open>interruptFlag\<close> one of
  \<^verbatim>\<open>0\<close>, \<^verbatim>\<open>1<<3\<close>, \<^verbatim>\<open>2<<3\<close>.\<close>

definition spec_exportFlags :: "u32 \<Rightarrow> u32 \<Rightarrow> u8" where
  "spec_exportFlags usedArgRegs interruptFlag = ucast (usedArgRegs OR push_bit 3 interruptFlag)"


section \<open>Auxiliary notions of the theorems\<close>

text \<open>The bits of \<^verbatim>\<open>e_flags\<close> that \<^verbatim>\<open>calcEFlags\<close> merges or compares; agreement of two flag
  words on the four compared fields; the \<^verbatim>\<open>EF_RISCV_RVC\<close> bit of any object of a list.\<close>

definition EF_MERGED :: u32 where
  "EF_MERGED = EF_RISCV_RVC OR EF_RISCV_FLOAT_ABI OR EF_RISCV_RVE OR EF_RISCV_CHERIABI OR EF_RISCV_CAP_MODE"

definition abiAgree :: "u32 \<Rightarrow> u32 \<Rightarrow> bool" where
  "abiAgree a b \<longleftrightarrow>
     a AND EF_RISCV_FLOAT_ABI = b AND EF_RISCV_FLOAT_ABI \<and>
     a AND EF_RISCV_RVE = b AND EF_RISCV_RVE \<and>
     a AND EF_RISCV_CHERIABI = b AND EF_RISCV_CHERIABI \<and>
     a AND EF_RISCV_CAP_MODE = b AND EF_RISCV_CAP_MODE"

definition rvcOf :: "InputFile list \<Rightarrow> u32" where
  "rvcOf fs = (if \<exists>f \<in> set fs. f_eflags f AND EF_RISCV_RVC \<noteq> 0 then EF_RISCV_RVC else 0)"

text \<open>The four bytes that \<^const>\<open>emitExport\<close> appends for an entry.\<close>

definition exportRecord :: "(string \<Rightarrow> u64) \<Rightarrow> CompartmentExport \<Rightarrow> u8 list" where
  "exportRecord addr e =
     (let diff = (ucast (addr (FnSym e) - addr ''__compartment_pcc_start'') :: u16)
      in [ucast diff, ucast (drop_bit 8 diff),
          ucast (ucast (min 255 ((stackSize e + 7) div 8)) :: u64),
          ucast (ucast (LiveIns e) :: u64)])"


definition sectionDeltas :: "LinkState \<Rightarrow> nat \<Rightarrow> u32 list" where
  "sectionDeltas S k =
     (case relaxAux (inputSections S ! k) of None \<Rightarrow> [] | Some aux \<Rightarrow> relocDeltas aux)"

definition sameSites :: "Relocation list \<Rightarrow> Relocation list \<Rightarrow> bool" where
  "sameSites rels rels' \<longleftrightarrow>
     list_all2 (\<lambda>a b. r_offset a = r_offset b \<and> r_type a = r_type b \<and> r_expr a = r_expr b) rels rels'"

text \<open>The state after the CHERIoT pre-pass: the relocations of section \<open>k\<close> replaced.\<close>

definition withRelocs :: "LinkState \<Rightarrow> nat \<Rightarrow> Relocation list \<Rightarrow> LinkState" where
  "withRelocs S k rels' =
     S\<lparr>inputSections := (inputSections S)[k := (inputSections S ! k)\<lparr>relocations := rels'\<rparr>]\<rparr>"

text \<open>The cumulative delta at an offset of a section: the \<^verbatim>\<open>relocDeltas\<close> entry of the last
  relocation before the first one whose offset is not below \<open>off\<close>, and 0 when there is
  none (the comment of lines 902--904: the anchors drained at a relocation ``are preceded
  by the previous relocation whose \<^verbatim>\<open>relocDeltas\<close> value equals \<^verbatim>\<open>delta\<close>'').\<close>

definition deltaAt :: "u64 list \<Rightarrow> u32 list \<Rightarrow> u64 \<Rightarrow> u32" where
  "deltaAt offs ds off = last (0 # take (length (takeWhile (\<lambda>x. x < off) offs)) ds)"

definition sectionDeltaAt :: "LinkState \<Rightarrow> nat \<Rightarrow> u64 \<Rightarrow> u32" where
  "sectionDeltaAt S k off =
     deltaAt (map r_offset (relocations (inputSections S ! k))) (sectionDeltas S k) off"

text \<open>\<^verbatim>\<open>st_value\<close> and \<^verbatim>\<open>st_size\<close> of a symbol of the table, if it is \<^verbatim>\<open>Defined\<close>.\<close>

definition symValue :: "Symbol list \<Rightarrow> nat \<Rightarrow> u64 option" where
  "symValue syms s = map_option d_value (getDefined syms s)"

definition symSize :: "Symbol list \<Rightarrow> nat \<Rightarrow> u64 option" where
  "symSize syms s = map_option d_size (getDefined syms s)"

text \<open>The shape of the anchor list that \<^const>\<open>initSymbolAnchors\<close> leaves for the symbols of
  an object file: sorted by offset, one start and one end anchor for a symbol, and no
  end anchor before the start anchor of its symbol.\<close>

fun startsFirst :: "SymbolAnchor list \<Rightarrow> bool" where
  "startsFirst [] = True"
| "startsFirst (a # sa) =
     ((a_end a \<longrightarrow> (\<forall>b \<in> set sa. a_end b \<or> a_d b \<noteq> a_d a)) \<and> startsFirst sa)"

definition anchorsWF :: "SymbolAnchor list \<Rightarrow> bool" where
  "anchorsWF sa \<longleftrightarrow>
     sorted (map a_offset sa) \<and>
     distinct (map a_d (filter (\<lambda>a. \<not> a_end a) sa)) \<and>
     distinct (map a_d (filter a_end sa)) \<and>
     startsFirst sa"

text \<open>The anchors that the loop over the files and their symbols (lines 680--694) pushes
  for the section \<open>k\<close>: \<open>fs\<close> is a file and a symbol of its list. \<open>anchored L S S'\<close> holds
  when \<open>S'\<close> is \<open>S\<close> with the anchors of the pairs of \<open>L\<close> pushed.\<close>

definition symAnchors :: "Symbol list \<Rightarrow> nat \<Rightarrow> nat \<times> nat \<Rightarrow> SymbolAnchor list" where
  "symAnchors syms k fs =
     (case getDefined syms (snd fs) of
        None \<Rightarrow> []
      | Some d \<Rightarrow>
          if d_file d = fst fs \<and> d_section d = Some k
          then [\<lparr>a_offset = d_value d, a_d = snd fs, a_end = False\<rparr>,
                \<lparr>a_offset = d_value d + d_size d, a_d = snd fs, a_end = True\<rparr>]
          else [])"

definition fileSymbols :: "LinkState \<Rightarrow> (nat \<times> nat) list" where
  "fileSymbols S =
     concat (map (\<lambda>fi. map (Pair fi) (f_symbols (objectFiles S ! fi)))
       [0 ..< length (objectFiles S)])"

definition sectionAnchors :: "LinkState \<Rightarrow> nat \<Rightarrow> SymbolAnchor list" where
  "sectionAnchors S k =
     (if s_flags (inputSections S ! k) AND SHF_EXECINSTR \<noteq> 0
      then concat (map (symAnchors (symtab S) k) (fileSymbols S)) else [])"

definition anchored :: "(nat \<times> nat) list \<Rightarrow> LinkState \<Rightarrow> LinkState \<Rightarrow> bool" where
  "anchored L S S' \<longleftrightarrow>
     symtab S' = symtab S \<and> objectFiles S' = objectFiles S \<and>
     outputSections S' = outputSections S \<and>
     length (inputSections S') = length (inputSections S) \<and>
     (\<forall>j<length (inputSections S).
        inputSections S' ! j =
          (if s_flags (inputSections S ! j) AND SHF_EXECINSTR \<noteq> 0
           then pushAnchors (concat (map (symAnchors (symtab S) j) L)) (inputSections S ! j)
           else inputSections S ! j))"

section \<open>Examples used by the closed theorems\<close>

definition cfg_rv32 :: Config where
  "cfg_rv32 = \<lparr>is64 = False, isCheriAbi = False, capabilitySize = 8, wordsize = 4,
               relaxOpt = True, relocatable = False, writeAddends = False,
               eflags = EF_RISCV_RVC\<rparr>"


definition rel0 :: "RelType \<Rightarrow> Relocation" where
  "rel0 t = \<lparr>r_expr = R_PC, r_type = t, r_offset = 0, r_addend = 0, r_sym = 0\<rparr>"

definition aux2 :: RISCVRelaxAux where
  "aux2 = \<lparr>anchors = [], relocDeltas = [0, 0],
           relocTypes = [R_RISCV_NONE, R_RISCV_NONE], writes = []\<rparr>"

definition env0 :: Env where
  "env0 = \<lparr>getVA = (\<lambda>syms s. case getDefined syms s of None \<Rightarrow> 8 | Some d \<Rightarrow> d_value d),
           getPltVA = (\<lambda>syms s. 8), secVA = (\<lambda>k. 0),
           isPCCRelative = (\<lambda>s. False), getBiasedCGPOffset = (\<lambda>syms s. 0),
           getBiasedCGPOffsetLo12 = (\<lambda>syms s. 0)\<rparr>"

definition objA :: InputFile where "objA = \<lparr>f_eflags = 0x10, f_symbols = []\<rparr>"

definition objB :: InputFile where "objB = \<lparr>f_eflags = 0x1, f_symbols = []\<rparr>"

definition objC :: InputFile where "objC = \<lparr>f_eflags = 0x0, f_symbols = []\<rparr>"

definition mf0 :: MachineFunction where
  "mf0 = \<lparr>mf_name = ''entry'', mf_callingConv = CHERI_CCallee,
          mf_interruptState = Some ''enabled'', mf_compartment = ''comp'',
          mf_liveIns = [RegC 10, RegX 11], mf_stackSize = 20\<rparr>"

definition isSub0 :: "MCPhysReg \<Rightarrow> MCPhysReg \<Rightarrow> bool" where
  "isSub0 a b = (case (a, b) of (RegC m, RegX n) \<Rightarrow> m = n | _ \<Rightarrow> False)"

definition addr0 :: "string \<Rightarrow> u64" where
  "addr0 s = (if s = ''entry'' then 0x1234 else 0x1000)"

text \<open>A link of one object: an executable section holding \<^verbatim>\<open>auipc t0, 0; jalr x0, t0, 0\<close>
  with a \<^verbatim>\<open>CALL\<close> and a \<^verbatim>\<open>RELAX\<close> relocation at offset 0, followed by two \<^verbatim>\<open>c.nop\<close>; the
  symbol 0 is the call target at offset 8, the symbol 1 the calling function.\<close>

definition state0 :: LinkState where
  "state0 =
     \<lparr>objectFiles = [\<lparr>f_eflags = EF_RISCV_RVC, f_symbols = [0, 1]\<rparr>],
      outputSections = [\<lparr>o_flags = 6, o_inputSections = [0]\<rparr>],
      inputSections =
        [\<lparr>s_flags = 6,
          relocations = [\<lparr>r_expr = R_PC, r_type = R_RISCV_CALL, r_offset = 0, r_addend = 0,
                           r_sym = 0\<rparr>,
                         \<lparr>r_expr = R_NONE, r_type = R_RISCV_RELAX, r_offset = 0, r_addend = 0,
                           r_sym = 0\<rparr>],
          rawData = [0x97, 0x02, 0, 0, 0x67, 0x80, 0x02, 0, 0x01, 0, 0x01, 0],
          relaxAux = None, bytesDropped = 0\<rparr>],
      symtab = [Some \<lparr>d_file = 0, d_section = Some 0, d_value = 8, d_size = 4\<rparr>,
                Some \<lparr>d_file = 0, d_section = Some 0, d_value = 0, d_size = 8\<rparr>]\<rparr>"



section \<open>The encoder and the applier: theorems\<close>

lemmas Op_defs = ADDI_def AUIPC_def JALR_def LD_def LW_def SRLI_def SUB_def
  CIncOffsetImm_def CLC_64_def CLC_128_def CSub_def AUIPCC_def AUICGP_def
lemmas Reg_defs = X_RA_def X_T0_def X_T1_def X_T2_def X_T3_def

lemma signed_take_bit_11_shift:
  "signed_take_bit 11 (v :: u32) + 0x800 = take_bit 12 (v + 0x800)"
proof -
  have "signed_take_bit 11 (uint v) = take_bit 12 (uint v + 2 ^ 11) - 2 ^ 11"
    using signed_take_bit_eq_take_bit_shift [of 11 "uint v"] by simp
  then have "word_of_int (signed_take_bit 11 (uint v)) + (0x800 :: u32)
    = word_of_int (take_bit 12 (uint v + 2 ^ 11))"
    by simp
  moreover have "(word_of_int (signed_take_bit 11 (uint v)) :: u32) = signed_take_bit 11 v"
    by (rule bit_word_eqI) (auto simp add: bit_simps)
  moreover have "(word_of_int (take_bit 12 (uint v + 2 ^ 11)) :: u32) = take_bit 12 (v + 0x800)"
    by (simp add: of_int_take_bit flip: take_bit_of_int)
  ultimately show ?thesis by simp
qed

lemma lo12_take_bit: "lo12 v = take_bit 12 v"
  by (simp add: lo12_def take_bit_eq_mask mask_eq_exp_minus_1)

text \<open>C4. For every 32-bit value \<open>v\<close>, sign-extending the 12-bit field \<open>lo12 v\<close> and
  adding \<open>hi20 v\<close> shifted left by 12 gives back \<open>v\<close> (in the source's 32-bit
  arithmetic).\<close>

theorem hi20_lo12_roundtrip:
  "sign_extend12 (lo12 v) + push_bit 12 (hi20 v) = v"
proof -
  have a: "sign_extend12 (lo12 v) = signed_take_bit 11 v"
    by (simp add: sign_extend12_def lo12_take_bit signed_take_bit_take_bit)
  have b: "push_bit 12 (hi20 v) = (v + 0x800) - take_bit 12 (v + 0x800)"
    unfolding hi20_def using bits_ident [of 12 "v + 0x800"] by (simp add: algebra_simps)
  show ?thesis
    unfolding a b using signed_take_bit_11_shift [of v] by (simp add: algebra_simps)
qed


text \<open>C5 (as stated). The claim names \<open>0x0C208E63\<close> as the word written for the value
  252 on \<open>beq x1, x2, .\<close>; the applier writes another word.\<close>

theorem relocate_branch_252_counterexample:
  "relocate cfg_rv32 (\<lambda>s. False) (le32 0x00208063) 0 (rel0 R_RISCV_BRANCH) 252
     \<noteq> Inr ([], le32 0x0C208E63)"
  by (simp add: relocate_def rel0_def relocBRANCH_def checkInt_def checkAlignment_def
      read32le_def write32le_def extractBits_def le32_def Let_def)

text \<open>C5 (amended). Applying \<^verbatim>\<open>R_RISCV_BRANCH\<close> with value 252 to the word
  \<open>0x00208063\<close> raises no diagnostic (252 is 2-byte aligned and 126 fits in 12 signed
  bits) and writes \<open>0x0E208E63\<close>: the immediate bits 7..5 go to bits 27..25 and the bits
  4..1 to bits 11..8, and the bits under the mask \<open>0x1FFF07F\<close> are those of the old
  word.\<close>

theorem relocate_branch_252:
  "relocate cfg isPCC (le32 0x00208063) 0
     \<lparr>r_expr = e, r_type = R_RISCV_BRANCH, r_offset = off, r_addend = a, r_sym = s\<rparr> 252
     = Inr ([], le32 0x0E208E63) \<and>
   (0x0E208E63 :: u32) AND 0x1FFF07F = 0x00208063 AND 0x1FFF07F"
  by (simp add: relocate_def relocBRANCH_def checkInt_def checkAlignment_def
      read32le_def write32le_def extractBits_def le32_def Let_def)

text \<open>C6 (as stated). The claim: no write at the location. On \<open>jal x0, .\<close> the range
  error (and an alignment error, the value being odd) is reported and the word is
  patched all the same.\<close>

theorem relocate_jal_out_of_range_counterexample:
  "relocate cfg_rv32 (\<lambda>s. False) (le32 0x0000006f) 0 (rel0 R_RISCV_JAL) 0x100001
     = Inr ([RangeError 0 0x80000 (- 0x80000) 0x7FFFF, AlignmentError 0 0x100001 2],
            le32 0x8000006f) \<and>
   le32 0x8000006f \<noteq> le32 0x0000006f"
  by (simp add: relocate_def rel0_def relocJAL_def checkInt_def checkAlignment_def
      read32le_def write32le_def extractBits_def le32_def Let_def)

text \<open>C6 (amended). Applying \<^verbatim>\<open>R_RISCV_JAL\<close> with the displacement \<open>0x100001\<close> reports a
  range error anchored at the relocation location (the halved value \<open>0x80000\<close> is
  outside the signed 20-bit range) followed by an alignment error, and the instruction
  word is still rewritten: its low 12 bits are kept and the J-type immediate field
  receives the scattered bits of the value, here bit 31 alone.\<close>

theorem relocate_jal_out_of_range:
  "loc + 4 \<le> length buf \<Longrightarrow>
   relocate cfg isPCC buf loc
     \<lparr>r_expr = e, r_type = R_RISCV_JAL, r_offset = off, r_addend = a, r_sym = s\<rparr> 0x100001
     = Inr ([RangeError loc 0x80000 (- 0x80000) 0x7FFFF, AlignmentError loc 0x100001 2],
            write32le buf loc ((read32le buf loc AND 0xFFF) OR 0x80000000))"
  by (simp add: relocate_def relocJAL_def checkInt_def checkAlignment_def
      extractBits_def Let_def)

theorem relocate_jal_out_of_range_witness:
  "relocate cfg_rv32 (\<lambda>s. False) [0x6f, 0, 0, 0] 0 (rel0 R_RISCV_JAL) 0x100001
     = Inr ([RangeError 0 0x80000 (- 0x80000) 0x7FFFF, AlignmentError 0 0x100001 2],
            [0x6f, 0, 0, 0x80])"
  using relocate_jal_out_of_range [of 0 "[0x6f, 0, 0, 0]" cfg_rv32 "\<lambda>s. False" R_PC 0 0 0]
  by (simp add: rel0_def read32le_def write32le_def)


section \<open>\<^verbatim>\<open>relaxCall\<close>: theorems\<close>

lemma rd_second_insn:
  "extractBits (read64le raw off) (32 + 11) (32 + 7) = drop_bit 7 (read32le raw (off + 4)) AND 0x1f"
proof -
  have m: "(0x1f :: u32) = mask 5" by (simp add: mask_eq_exp_minus_1)
  have m2: "(push_bit (32 + 11 + 1) 1 - 1 :: u64) = mask 44" by (simp add: mask_eq_exp_minus_1)
  show ?thesis
    unfolding extractBits_def read64le_def m m2
    by (rule bit_word_eqI) (auto simp add: bit_simps dest: bit_imp_le_length)
qed

lemma isInt_12: "isInt 12 x \<longleftrightarrow> - 2048 \<le> sint x \<and> sint x < 2048"
  by (simp add: isInt_def)

lemma isInt_21: "isInt 21 x \<longleftrightarrow> - 1048576 \<le> sint x \<and> sint x < 1048576"
  by (simp add: isInt_def)

lemma relaxCall_unfold:
  "relaxCall env cfg syms raw i loc r (aux, 0) =
     (let rd = drop_bit 7 (read32le raw (unat (r_offset r) + 4)) AND 0x1f;
          disp = sint ((if r_expr r = R_PLT_PC then getPltVA env syms (r_sym r)
                      else getVA env syms (r_sym r)) + r_addend r - loc);
          cj = (if r_type r = R_RISCV_CHERI_CCALL then R_RISCV_CHERI_RVC_CJUMP
              else R_RISCV_RVC_JUMP);
          jal = (if r_type r = R_RISCV_CHERI_CCALL then R_RISCV_CHERI_CJAL else R_RISCV_JAL)
      in if eflags cfg AND EF_RISCV_RVC \<noteq> 0 \<and> (- 2048 \<le> disp \<and> disp < 2048) \<and> rd = 0
         then (aux\<lparr>relocTypes := (relocTypes aux)[i := cj], writes := writes aux @ [0xa001]\<rparr>, 6)
         else if eflags cfg AND EF_RISCV_RVC \<noteq> 0 \<and> (- 2048 \<le> disp \<and> disp < 2048) \<and> rd = X_RA \<and> \<not> is64 cfg
         then (aux\<lparr>relocTypes := (relocTypes aux)[i := cj], writes := writes aux @ [0x2001]\<rparr>, 6)
         else if - 1048576 \<le> disp \<and> disp < 1048576
         then (aux\<lparr>relocTypes := (relocTypes aux)[i := jal],
                  writes := writes aux @ [0x6f OR push_bit 7 rd]\<rparr>, 4)
         else (aux, 0))"
  unfolding relaxCall_def rd_second_insn isInt_12 isInt_21 Let_def prod.case
  by (rule refl)

lemma if_chain4:
  "(A \<longrightarrow> (if A then x else if B then y else if C then z else w) = x) \<and>
   (\<not> A \<and> B \<longrightarrow> (if A then x else if B then y else if C then z else w) = y) \<and>
   (\<not> A \<and> \<not> B \<and> C \<longrightarrow> (if A then x else if B then y else if C then z else w) = z) \<and>
   (\<not> A \<and> \<not> B \<and> \<not> C \<longrightarrow> (if A then x else if B then y else if C then z else w) = w)"
  by simp

text \<open>C3. \<^verbatim>\<open>relaxCall\<close> on an \<^verbatim>\<open>auipc\<close>+\<^verbatim>\<open>jalr\<close> pair, entered with \<^verbatim>\<open>remove = 0\<close> as
  \<^verbatim>\<open>relax\<close> does when a \<^verbatim>\<open>RELAX\<close> hint follows. With \<open>rd\<close> the bits 7..11 of the second
  instruction and \<open>disp\<close> the signed displacement from \<open>loc\<close> to the target: if the
  compressed extension is enabled, \<open>disp\<close> fits in 12 signed bits and \<open>rd = 0\<close>, it pushes
  \<open>0xa001\<close>, sets the type to \<^verbatim>\<open>RVC_JUMP\<close> (\<^verbatim>\<open>CHERI_RVC_CJUMP\<close> for \<^verbatim>\<open>CHERI_CCALL\<close>) and
  removes 6; else if compressed, \<open>disp\<close> fits in 12 bits, \<open>rd = x1\<close> and the target is
  32-bit, it pushes \<open>0x2001\<close> and removes 6; else if \<open>disp\<close> fits in 21 signed bits, it
  pushes \<open>0x6f | (rd << 7)\<close>, sets the type to \<^verbatim>\<open>JAL\<close> (\<^verbatim>\<open>CHERI_CJAL\<close>) and removes 4;
  otherwise nothing changes.\<close>

theorem relaxCall_rewrites:
  "(let rvc = (eflags cfg AND EF_RISCV_RVC \<noteq> 0);
        rd = drop_bit 7 (read32le raw (unat (r_offset r) + 4)) AND 0x1f;
        disp = sint ((if r_expr r = R_PLT_PC then getPltVA env syms (r_sym r)
                      else getVA env syms (r_sym r)) + r_addend r - loc);
        cj = (if r_type r = R_RISCV_CHERI_CCALL then R_RISCV_CHERI_RVC_CJUMP
              else R_RISCV_RVC_JUMP);
        jal = (if r_type r = R_RISCV_CHERI_CCALL then R_RISCV_CHERI_CJAL else R_RISCV_JAL);
        fits12 = (- 2048 \<le> disp \<and> disp < 2048);
        fits21 = (- 1048576 \<le> disp \<and> disp < 1048576);
        cjCase = (rvc \<and> fits12 \<and> rd = 0);
        cjalCase = (rvc \<and> fits12 \<and> rd = X_RA \<and> \<not> is64 cfg)
    in (cjCase \<longrightarrow>
          relaxCall env cfg syms raw i loc r (aux, 0) =
            (aux\<lparr>relocTypes := (relocTypes aux)[i := cj],
                  writes := writes aux @ [0xa001]\<rparr>, 6)) \<and>
       (\<not> cjCase \<and> cjalCase \<longrightarrow>
          relaxCall env cfg syms raw i loc r (aux, 0) =
            (aux\<lparr>relocTypes := (relocTypes aux)[i := cj],
                  writes := writes aux @ [0x2001]\<rparr>, 6)) \<and>
       (\<not> cjCase \<and> \<not> cjalCase \<and> fits21 \<longrightarrow>
          relaxCall env cfg syms raw i loc r (aux, 0) =
            (aux\<lparr>relocTypes := (relocTypes aux)[i := jal],
                  writes := writes aux @ [0x6f OR push_bit 7 rd]\<rparr>, 4)) \<and>
       (\<not> cjCase \<and> \<not> cjalCase \<and> \<not> fits21 \<longrightarrow>
          relaxCall env cfg syms raw i loc r (aux, 0) = (aux, 0)))"
  unfolding Let_def relaxCall_unfold [unfolded Let_def]
  by (rule if_chain4)

theorem relaxCall_rewrites_witness:
  "relaxCall env0 cfg_rv32 [] [0x97, 0x02, 0, 0, 0x67, 0x80, 0x02, 0] 0 0
     (rel0 R_RISCV_CALL) (aux2, 0) =
   (aux2\<lparr>relocTypes := [R_RISCV_RVC_JUMP, R_RISCV_NONE], writes := [0xa001]\<rparr>, 6)"
  using relaxCall_rewrites [of cfg_rv32 "[0x97, 0x02, 0, 0, 0x67, 0x80, 0x02, 0]"
      "rel0 R_RISCV_CALL" env0 "[]" 0 0 aux2]
  by (simp add: Let_def cfg_rv32_def rel0_def env0_def aux2_def EF_RISCV_RVC_def read32le_def
      getDefined_def)

section \<open>\<^verbatim>\<open>calcEFlags\<close>: theorems\<close>

lemmas EF_defs = EF_RISCV_RVC_def EF_RISCV_FLOAT_ABI_def EF_RISCV_RVE_def
  EF_RISCV_CHERIABI_def EF_RISCV_CAP_MODE_def

lemma or_rvc_masked:
  "(t OR EF_RISCV_RVC) AND EF_RISCV_FLOAT_ABI = t AND EF_RISCV_FLOAT_ABI"
  "(t OR EF_RISCV_RVC) AND EF_RISCV_RVE = t AND EF_RISCV_RVE"
  "(t OR EF_RISCV_RVC) AND EF_RISCV_CHERIABI = t AND EF_RISCV_CHERIABI"
  "(t OR EF_RISCV_RVC) AND EF_RISCV_CAP_MODE = t AND EF_RISCV_CAP_MODE"
  by (simp_all add: EF_defs bit.conj_disj_distrib2)

lemma abiAgree_or_rvc: "abiAgree a (t OR EF_RISCV_RVC) = abiAgree a t"
  by (simp add: abiAgree_def or_rvc_masked)

lemma eflagsStep_fst: "fst (eflagsStep fi ef t) = [] \<longleftrightarrow> abiAgree ef t"
  by (simp add: eflagsStep_def Let_def abiAgree_def or_rvc_masked)

lemma eflagsStep_snd:
  "snd (eflagsStep fi ef t) = (if ef AND EF_RISCV_RVC \<noteq> 0 then t OR EF_RISCV_RVC else t)"
  by (simp add: eflagsStep_def Let_def)

lemma calcEFlagsLoop_fst:
  "fst (calcEFlagsLoop fi fs (e0, t)) = [] \<longleftrightarrow> e0 = [] \<and> (\<forall>f \<in> set fs. abiAgree (f_eflags f) t)"
proof (induction fs arbitrary: fi e0 t)
  case Nil
  then show ?case by simp
next
  case (Cons f fs)
  obtain errs t' where st: "eflagsStep fi (f_eflags f) t = (errs, t')" by (cases "eflagsStep fi (f_eflags f) t")
  have e: "errs = [] \<longleftrightarrow> abiAgree (f_eflags f) t" using eflagsStep_fst [of fi "f_eflags f" t] st by simp
  have t': "t' = (if f_eflags f AND EF_RISCV_RVC \<noteq> 0 then t OR EF_RISCV_RVC else t)"
    using eflagsStep_snd [of fi "f_eflags f" t] st by simp
  have ag: "\<And>a. abiAgree a t' = abiAgree a t" by (simp add: t' abiAgree_or_rvc)
  show ?case using Cons.IH [of "Suc fi" "e0 @ errs" t'] st e ag by auto
qed

lemma calcEFlagsLoop_snd:
  "snd (calcEFlagsLoop fi fs (e0, t)) = t OR rvcOf fs"
proof (induction fs arbitrary: fi e0 t)
  case Nil
  then show ?case by (simp add: rvcOf_def)
next
  case (Cons f fs)
  obtain errs t' where st: "eflagsStep fi (f_eflags f) t = (errs, t')" by (cases "eflagsStep fi (f_eflags f) t")
  have t': "t' = (if f_eflags f AND EF_RISCV_RVC \<noteq> 0 then t OR EF_RISCV_RVC else t)"
    using eflagsStep_snd [of fi "f_eflags f" t] st by simp
  show ?case using Cons.IH [of "Suc fi" "e0 @ errs" t'] st t'
    by (auto simp add: rvcOf_def ac_simps)
qed

lemma abiAgree_sym: "abiAgree a b \<Longrightarrow> abiAgree b a" by (simp add: abiAgree_def)
lemma abiAgree_trans: "abiAgree a b \<Longrightarrow> abiAgree b c \<Longrightarrow> abiAgree a c" by (simp add: abiAgree_def)

lemma merged_split:
  "x AND EF_MERGED = (x AND EF_RISCV_RVC) OR (x AND EF_RISCV_FLOAT_ABI) OR (x AND EF_RISCV_RVE)
     OR (x AND EF_RISCV_CHERIABI) OR (x AND EF_RISCV_CAP_MODE)"
  by (simp add: EF_MERGED_def bit.conj_disj_distrib)


lemma rvcOf_and: "rvcOf fs AND EF_RISCV_RVC = rvcOf fs"
  by (simp add: rvcOf_def)

lemma rvcOf_masked:
  "rvcOf fs AND EF_RISCV_FLOAT_ABI = 0" "rvcOf fs AND EF_RISCV_RVE = 0"
  "rvcOf fs AND EF_RISCV_CHERIABI = 0" "rvcOf fs AND EF_RISCV_CAP_MODE = 0"
  by (simp_all add: rvcOf_def EF_defs)

lemma and_rvc_cases: "x AND EF_RISCV_RVC = 0 \<or> x AND EF_RISCV_RVC = EF_RISCV_RVC"
proof -
  have "EF_RISCV_RVC = (1 :: u32)" by (simp add: EF_RISCV_RVC_def)
  then show ?thesis by (simp add: and_one_eq) (metis even_iff_mod_2_eq_zero not_mod_2_eq_1_eq_0 odd_iff_mod_2_eq_one)
qed

lemma rvc_absorb:
  assumes "f \<in> set fs"
  shows "(f_eflags f AND EF_RISCV_RVC) OR rvcOf fs = rvcOf fs"
proof (cases "f_eflags f AND EF_RISCV_RVC = 0")
  case True
  then show ?thesis by simp
next
  case False
  then have "rvcOf fs = EF_RISCV_RVC" using assms by (auto simp add: rvcOf_def)
  moreover have "f_eflags f AND EF_RISCV_RVC = EF_RISCV_RVC" using False and_rvc_cases by blast
  ultimately show ?thesis by simp
qed

lemma and_not_or_absorb: "a AND NOT (a OR b) = (0 :: u32)"
  by (rule bit_word_eqI) (auto simp add: bit_simps)

lemma rvc_and_not_merged: "EF_RISCV_RVC AND NOT EF_MERGED = 0"
  unfolding EF_MERGED_def or.assoc by (rule and_not_or_absorb)

lemma rvcOf_not_merged: "rvcOf fs AND NOT EF_MERGED = 0"
  by (simp add: rvcOf_def rvc_and_not_merged)

lemma calcEFlags_Cons:
  "calcEFlags (f # fs) = calcEFlagsLoop 0 (f # fs) ([], f_eflags f)"
  by (simp add: calcEFlags_def)

lemma calcEFlags_merged:
  assumes "f \<in> set fs"
  shows "snd (calcEFlags fs) AND EF_MERGED =
           rvcOf fs OR (f_eflags (hd fs) AND EF_RISCV_FLOAT_ABI) OR (f_eflags (hd fs) AND EF_RISCV_RVE)
           OR (f_eflags (hd fs) AND EF_RISCV_CHERIABI) OR (f_eflags (hd fs) AND EF_RISCV_CAP_MODE)"
proof -
  obtain g gs where fs: "fs = g # gs" using assms by (cases fs) auto
  have s: "snd (calcEFlags fs) = f_eflags g OR rvcOf fs"
    unfolding fs calcEFlags_Cons by (rule calcEFlagsLoop_snd)
  have a: "(f_eflags g OR rvcOf fs) AND EF_RISCV_RVC = rvcOf fs"
    using rvc_absorb [of g fs] by (simp add: bit.conj_disj_distrib2 rvcOf_and fs)
  have b: "(f_eflags g OR rvcOf fs) AND EF_RISCV_FLOAT_ABI = f_eflags g AND EF_RISCV_FLOAT_ABI"
    "(f_eflags g OR rvcOf fs) AND EF_RISCV_RVE = f_eflags g AND EF_RISCV_RVE"
    "(f_eflags g OR rvcOf fs) AND EF_RISCV_CHERIABI = f_eflags g AND EF_RISCV_CHERIABI"
    "(f_eflags g OR rvcOf fs) AND EF_RISCV_CAP_MODE = f_eflags g AND EF_RISCV_CAP_MODE"
    by (simp_all add: bit.conj_disj_distrib2 rvcOf_masked)
  have h: "hd fs = g" by (simp add: fs)
  show ?thesis
    unfolding s merged_split [of "f_eflags g OR rvcOf fs"] a b h by (rule refl)
qed

text \<open>C7 (amended). Merging the flags of the same objects in any two orders, the first
  of which raises no error, raises no error in the other order either and gives the
  same \<^verbatim>\<open>EF_RISCV_RVC\<close>, \<^verbatim>\<open>EF_RISCV_FLOAT_ABI\<close>, \<^verbatim>\<open>EF_RISCV_RVE\<close>, \<^verbatim>\<open>EF_RISCV_CHERIABI\<close> and
  \<^verbatim>\<open>EF_RISCV_CAP_MODE\<close> bits; every other bit of the merged value is the bit of the
  first object of the order.\<close>

theorem calcEFlags_order:
  assumes "mset gs = mset fs" and "fst (calcEFlags fs) = []"
  shows "fst (calcEFlags gs) = [] \<and>
         snd (calcEFlags gs) AND EF_MERGED = snd (calcEFlags fs) AND EF_MERGED \<and>
         (gs \<noteq> [] \<longrightarrow>
            snd (calcEFlags gs) AND NOT EF_MERGED = f_eflags (hd gs) AND NOT EF_MERGED)"
proof (cases fs)
  case Nil
  then show ?thesis using assms by (simp add: calcEFlags_def)
next
  case (Cons f fs')
  then obtain g gs' where gs: "gs = g # gs'" using assms(1) by (cases gs) auto
  have sets: "set gs = set fs" using assms(1) by (rule mset_eq_setD)
  have all: "\<forall>x \<in> set fs. abiAgree (f_eflags x) (f_eflags f)"
    using assms(2) unfolding Cons calcEFlags_Cons calcEFlagsLoop_fst by simp
  have gf: "abiAgree (f_eflags g) (f_eflags f)" using all sets gs by auto
  have allg: "\<forall>x \<in> set gs. abiAgree (f_eflags x) (f_eflags g)"
  proof
    fix x
    assume "x \<in> set gs"
    then have "abiAgree (f_eflags x) (f_eflags f)" using all sets by simp
    then show "abiAgree (f_eflags x) (f_eflags g)"
      by (rule abiAgree_trans [OF _ abiAgree_sym [OF gf]])
  qed
  have 1: "fst (calcEFlags gs) = []"
    unfolding gs calcEFlags_Cons calcEFlagsLoop_fst using allg gs by simp
  have rv: "rvcOf gs = rvcOf fs" by (simp add: rvcOf_def sets)
  have hg: "hd gs = g" and hf: "hd fs = f" by (simp_all add: gs Cons)
  have mg: "g \<in> set gs" and mf: "f \<in> set fs" by (simp_all add: gs Cons)
  have 2: "snd (calcEFlags gs) AND EF_MERGED = snd (calcEFlags fs) AND EF_MERGED"
    unfolding calcEFlags_merged [OF mg] calcEFlags_merged [OF mf] hg hf rv
    using gf by (simp only: abiAgree_def)
  have "snd (calcEFlags gs) = f_eflags g OR rvcOf gs"
    unfolding gs calcEFlags_Cons by (rule calcEFlagsLoop_snd)
  then have 3: "snd (calcEFlags gs) AND NOT EF_MERGED = f_eflags (hd gs) AND NOT EF_MERGED"
    by (simp only: bit.conj_disj_distrib2 rvcOf_not_merged gs list.sel or.right_neutral)
  show ?thesis
  proof (intro conjI impI)
    show "fst (calcEFlags gs) = []" by (fact 1)
    show "snd (calcEFlags gs) AND EF_MERGED = snd (calcEFlags fs) AND EF_MERGED" by (fact 2)
    show "snd (calcEFlags gs) AND NOT EF_MERGED = f_eflags (hd gs) AND NOT EF_MERGED" by (fact 3)
  qed
qed

text \<open>C7 (as stated). Three objects whose flags are \<open>0x10\<close>, \<open>0x1\<close> and \<open>0\<close>: both orders
  merge without error, and the merged values differ in the bit \<open>0x10\<close>, which is taken
  from the first object.\<close>

theorem calcEFlags_order_counterexample:
  "fst (calcEFlags [objA, objB, objC]) = [] \<and> fst (calcEFlags [objB, objA, objC]) = [] \<and>
   snd (calcEFlags [objA, objB, objC]) \<noteq> snd (calcEFlags [objB, objA, objC])"
  by (simp add: calcEFlags_def eflagsStep_def objA_def objB_def objC_def EF_defs Let_def)

theorem calcEFlags_order_witness:
  "fst (calcEFlags [objB, objA, objC]) = [] \<and>
   snd (calcEFlags [objB, objA, objC]) AND EF_MERGED =
     snd (calcEFlags [objA, objB, objC]) AND EF_MERGED \<and>
   snd (calcEFlags [objB, objA, objC]) AND NOT EF_MERGED = f_eflags objB AND NOT EF_MERGED"
proof -
  have 1: "mset [objB, objA, objC] = mset [objA, objB, objC]" by (simp add: ac_simps)
  have 2: "fst (calcEFlags [objA, objB, objC]) = []"
    by (simp add: calcEFlags_def eflagsStep_def objA_def objB_def objC_def EF_defs Let_def)
  show ?thesis using calcEFlags_order [OF 1 2] by simp
qed

section \<open>\<^verbatim>\<open>writePltHeader\<close>: theorems\<close>

lemma length_le32 [simp]: "length (le32 v) = 4" by (simp add: le32_def)

lemma length_write32le [simp]: "length (write32le buf loc v) = length buf"
  by (simp add: write32le_def)

lemma write32le_0: "4 \<le> length ys \<Longrightarrow> write32le ys 0 v = le32 v @ drop 4 ys"
  apply (cases ys; simp add: write32le_def le32_def)
  subgoal for a ys
  apply (cases ys; simp)
  subgoal for a ys
  apply (cases ys; simp)
  subgoal for a ys
  apply (cases ys; simp)
  done done done done

lemma write32le_append:
  "length xs \<le> loc \<Longrightarrow> write32le (xs @ ys) loc v = xs @ write32le ys (loc - length xs) v"
  by (simp add: write32le_def list_update_append Suc_diff_le)

lemma shift_cases: "(2 - of_bool b :: u32) \<noteq> 0" by (cases b) simp_all

lemma writePltHeader_nonCheri:
  assumes "\<not> isCheriAbi cfg" and "32 \<le> length buf"
  shows "writePltHeader cfg gotPltVA pltVA buf =
     concat (map le32
       [utype AUIPC X_T2 (hi20 (ucast (gotPltVA - pltVA))),
        rtype SUB X_T1 X_T1 X_T3,
        itype (if is64 cfg then LD else LW) X_T3 X_T2 (lo12 (ucast (gotPltVA - pltVA))),
        itype ADDI X_T1 X_T1 (- 44),
        itype ADDI X_T0 X_T2 (lo12 (ucast (gotPltVA - pltVA))),
        itype SRLI X_T1 X_T1 (if is64 cfg then 1 else 2),
        itype (if is64 cfg then LD else LW) X_T0 X_T0 (wordsize cfg),
        itype JALR 0 X_T3 0]) @ drop 32 buf"
  using assms
  by (simp add: writePltHeader_def Let_def pltHeaderSize_def write32le_0 write32le_append)


text \<open>C8 (amended). Under the non-CHERI ABI the PLT header is 32 bytes holding exactly
  eight instructions: \<^verbatim>\<open>auipc t2\<close>, \<^verbatim>\<open>sub t1\<close>, the pointer load of \<^verbatim>\<open>t3\<close>, \<^verbatim>\<open>addi t1\<close> by
  \<open>-pltHeaderSize - 12\<close>, \<^verbatim>\<open>addi t0\<close>, \<^verbatim>\<open>srli t1\<close> by the shift 2 (32-bit) or 1 (64-bit),
  which is \<open>log2(pltEntrySize/ptrSize)\<close> for pointers of 4 and 8 bytes, the pointer load
  of \<^verbatim>\<open>t0\<close> and \<^verbatim>\<open>jalr x0, t3\<close>. No \<^verbatim>\<open>nop\<close> follows and nothing beyond the 32 bytes is
  written: the source writes a \<^verbatim>\<open>nop\<close> only when the shift is 0, in place of the
  \<^verbatim>\<open>srli\<close>, and the shift is never 0 under this ABI.\<close>

theorem writePltHeader_layout:
  assumes "\<not> isCheriAbi cfg" and "32 \<le> length buf"
  shows "take 32 (writePltHeader cfg gotPltVA pltVA buf) =
     concat (map le32
       [utype AUIPC X_T2 (hi20 (ucast (gotPltVA - pltVA))),
        rtype SUB X_T1 X_T1 X_T3,
        itype (if is64 cfg then LD else LW) X_T3 X_T2 (lo12 (ucast (gotPltVA - pltVA))),
        itype ADDI X_T1 X_T1 (- pltHeaderSize - 12),
        itype ADDI X_T0 X_T2 (lo12 (ucast (gotPltVA - pltVA))),
        itype SRLI X_T1 X_T1 (if is64 cfg then 1 else 2),
        itype (if is64 cfg then LD else LW) X_T0 X_T0 (wordsize cfg),
        itype JALR 0 X_T3 0]) \<and>
    drop 32 (writePltHeader cfg gotPltVA pltVA buf) = drop 32 buf \<and>
    (wordsize cfg = (if is64 cfg then 8 else 4) \<longrightarrow>
       push_bit (if is64 cfg then 1 else 2) (wordsize cfg) = pltEntrySize)"
  using assms
  by (simp add: writePltHeader_nonCheri pltHeaderSize_def pltEntrySize_def)


text \<open>C8 (as stated). For a 32-bit non-CHERI link the shift is 2, so the claim's layout
  ends with a \<^verbatim>\<open>nop\<close> after the eight instructions; the header written into a buffer of
  36 bytes is another list of bytes.\<close>

theorem writePltHeader_layout_counterexample:
  "writePltHeader cfg_rv32 0x2000 0x1000 (replicate 36 0) \<noteq>
     concat (map le32 (spec_pltHeader LW 4 2 0x1000))"
  by code_simp

theorem writePltHeader_layout_witness:
  "take 32 (writePltHeader cfg_rv32 0x2000 0x1000 (replicate 36 0)) =
     concat (map le32 [0x00001397, 0x41c30333, 0x0003ae03, 0xfd430313, 0x00038293, 0x00235313, 0x0042a283, 0x000e0067])
   \<and> drop 32 (writePltHeader cfg_rv32 0x2000 0x1000 (replicate 36 0)) = replicate 4 0"
  using writePltHeader_layout [where cfg = cfg_rv32 and buf = "replicate 36 0" and gotPltVA = "0x2000" and pltVA = "0x1000"]
  by (simp add: cfg_rv32_def pltHeaderSize_def itype_def utype_def rtype_def Op_defs Reg_defs
      hi20_def lo12_def le32_def)

section \<open>Compartment exports: theorems\<close>

lemma length_exportRecord [simp]: "length (exportRecord addr e) = 4"
  by (simp add: exportRecord_def Let_def)

lemma emitExport_aligned:
  "length out mod 4 = 0 \<Longrightarrow> emitExport addr e out = out @ exportRecord addr e"
  by (simp add: emitExport_def emitValueToAlignment_def emitLabelDifference_def
      emitIntValue1_def exportRecord_def Let_def)

lemma fold_emitExport:
  "length out mod 4 = 0 \<Longrightarrow>
   fold (emitExport addr) es out = out @ concat (map (exportRecord addr) es)"
proof (induction es arbitrary: out)
  case Nil
  then show ?case by simp
next
  case (Cons e es)
  have "length (out @ exportRecord addr e) mod 4 = 0" using Cons.prems by (simp add: mod_add_self2)
  then show ?case using Cons.IH [of "out @ exportRecord addr e"] Cons.prems
    by (simp add: emitExport_aligned)
qed

lemma emitExports_concat: "emitExports addr es = concat (map (exportRecord addr) es)"
  using fold_emitExport [of "[]" addr es] by (simp add: emitExports_def)

lemma length_concat_records: "length (concat (map (exportRecord addr) es)) = 4 * length es"
  by (induction es) simp_all

lemma nth_concat_records:
  "i < length es \<Longrightarrow> j < 4 \<Longrightarrow>
   concat (map (exportRecord addr) es) ! (4 * i + j) = exportRecord addr (es ! i) ! j"
proof (induction es arbitrary: i)
  case Nil
  then show ?case by simp
next
  case (Cons e es)
  show ?case
  proof (cases i)
    case 0
    then show ?thesis using Cons.prems by (simp add: nth_append)
  next
    case (Suc k)
    then show ?thesis using Cons.prems Cons.IH [of k] by (simp add: nth_append)
  qed
qed

lemma interruptFlagOf_states:
  "interruptFlagOf a =
     (if a = Some ''enabled'' then push_bit 3 1
      else if a = Some ''disabled'' then push_bit 3 2 else 0)"
  by (simp add: interruptFlagOf_def split: option.split)

lemma interruptFlagOf_cases:
  "interruptFlagOf a = 0 \<or> interruptFlagOf a = 8 \<or> interruptFlagOf a = 16"
  by (simp add: interruptFlagOf_def split: option.split)

lemma argRegScan_bound:
  "i + length as \<le> 7 \<Longrightarrow> n \<le> 7 \<Longrightarrow> argRegScan isSub li i as n \<le> 7"
proof (induction as arbitrary: i n)
  case Nil
  then show ?case by simp
next
  case (Cons a as)
  have "(of_nat (i + 1) :: u32) \<le> 7"
  proof -
    have "i = 0 \<or> i = 1 \<or> i = 2 \<or> i = 3 \<or> i = 4 \<or> i = 5 \<or> i = 6"
      using Cons.prems by auto
    then show ?thesis by (elim disjE) simp_all
  qed
  then show ?case using Cons by (auto simp add: max_def simp del: of_nat_Suc of_nat_add)
qed

lemma countUsedArgRegisters_bound: "countUsedArgRegisters isSub mf \<le> 7"
proof -
  have "n \<le> 7 \<Longrightarrow> fold (\<lambda>li n. argRegScan isSub li 0 ArgGPCRsE n) ls n \<le> 7" for ls n
    by (induction ls arbitrary: n) (simp_all add: argRegScan_bound ArgGPCRsE_def)
  then show ?thesis by (simp add: countUsedArgRegisters_def)
qed


lemma runOnMachineFunction_entries:
  assumes "e \<in> set (runOnMachineFunction isSub mf es)" and "e \<notin> set es"
  shows "FnSym e = mf_name mf \<and>
         LiveIns e = countUsedArgRegisters isSub mf + interruptFlagOf (mf_interruptState mf)"
  using assms by (auto simp add: runOnMachineFunction_def Let_def split: if_splits)

lemma fold_runOnMachineFunction_entries:
  "e \<in> set (fold (runOnMachineFunction isSub) mfs es) \<Longrightarrow>
   e \<in> set es \<or> (\<exists>mf \<in> set mfs. FnSym e = mf_name mf \<and>
         LiveIns e = countUsedArgRegisters isSub mf + interruptFlagOf (mf_interruptState mf))"
proof (induction mfs arbitrary: es)
  case Nil
  then show ?case by simp
next
  case (Cons mf mfs)
  from Cons.IH [of "runOnMachineFunction isSub mf es"] Cons.prems
  show ?case using runOnMachineFunction_entries [of e isSub mf es] by auto
qed

lemma used_plus_flag:
  fixes used flag :: u32
  assumes "used \<le> 7" and "flag = 0 \<or> flag = 8 \<or> flag = 16"
  shows "used + flag = used OR flag"
proof -
  have "unat used \<le> 7" using assms(1) by (simp add: word_le_nat_alt)
  then have "unat used = 0 \<or> unat used = 1 \<or> unat used = 2 \<or> unat used = 3 \<or>
             unat used = 4 \<or> unat used = 5 \<or> unat used = 6 \<or> unat used = 7"
    by auto
  moreover have "\<And>k. unat used = k \<Longrightarrow> used = of_nat k" by auto
  ultimately have "used = 0 \<or> used = 1 \<or> used = 2 \<or> used = 3 \<or>
             used = 4 \<or> used = 5 \<or> used = 6 \<or> used = 7"
    by fastforce
  then show ?thesis using assms(2) by (elim disjE) simp_all
qed


lemma ucast_twice: "(ucast (ucast (w :: u32) :: u64) :: u8) = ucast w"
  by (rule bit_word_eqI) (simp add: bit_simps)

lemma unat_ucast_small:
  assumes "unat (w :: u32) < 256"
  shows "unat (ucast w :: u8) = unat w"
proof -
  have "(ucast w :: u8) = of_nat (unat w)" by simp
  then have "unat (ucast w :: u8) = unat w mod 2 ^ 8"
    by (simp only: unat_of_nat) simp
  then show ?thesis using assms by simp
qed

lemma stack_byte:
  fixes s :: u32
  assumes "unat s + 7 < 2 ^ 32"
  shows "unat (ucast (ucast (min 255 ((s + 7) div 8)) :: u64) :: u8) = min 255 ((unat s + 7) div 8)"
proof -
  have a: "unat (s + 7) = unat s + 7"
    using assms unat_add_lem [of s 7] by simp
  have b: "unat ((s + 7) div 8) = (unat s + 7) div 8" by (simp add: unat_div a)
  have c: "unat (min 255 ((s + 7) div 8)) = min 255 ((unat s + 7) div 8)"
    using b by (simp add: min_def word_le_nat_alt)
  have d: "min 255 ((unat s + 7) div 8) < 256" by simp
  show ?thesis
    unfolding ucast_twice using c d unat_ucast_small [of "min 255 ((s + 7) div 8)"] by simp
qed

text \<open>C9 (amended). Every record emitted into \<^verbatim>\<open>.compartment_exports\<close> is 4 bytes at an
  offset that is a multiple of 4: 2 bytes holding the label difference
  \<^verbatim>\<open>fnSym - __compartment_pcc_start\<close>, 1 byte holding \<open>min(255, ceil(stackSize/8))\<close> (for
  a stack size below \<open>2^32 - 7\<close>), and 1 byte holding \<^verbatim>\<open>LiveIns\<close>, which for the function
  the entry comes from is \<open>usedArgRegs | interruptFlag\<close> with \<open>usedArgRegs\<close> at most 7 and
  \<open>interruptFlag\<close> equal to \<open>1<<3\<close> when the attribute \<^verbatim>\<open>interrupt-state\<close> is \<^verbatim>\<open>enabled\<close>, to
  \<open>2<<3\<close> when it is \<^verbatim>\<open>disabled\<close>, and to \<open>0\<close> when it is absent or has another value.\<close>

theorem compartment_export_record:
  assumes "entries = fold (runOnMachineFunction isSub) mfs []" and "i < length entries"
  shows "length (emitExports addr entries) = 4 * length entries \<and>
    (let e = entries ! i; out = emitExports addr entries;
         diff = (ucast (addr (FnSym e) - addr ''__compartment_pcc_start'') :: u16)
     in out ! (4 * i) = ucast diff \<and> out ! (4 * i + 1) = ucast (drop_bit 8 diff) \<and>
        (unat (stackSize e) + 7 < 2 ^ 32 \<longrightarrow>
           unat (out ! (4 * i + 2)) = min 255 ((unat (stackSize e) + 7) div 8)) \<and>
        out ! (4 * i + 3) = ucast (LiveIns e) \<and>
        (\<exists>mf \<in> set mfs.
           FnSym e = mf_name mf \<and>
           LiveIns e = countUsedArgRegisters isSub mf OR interruptFlagOf (mf_interruptState mf) \<and>
           countUsedArgRegisters isSub mf \<le> 7 \<and>
           interruptFlagOf (mf_interruptState mf) \<in> {0, push_bit 3 1, push_bit 3 2} \<and>
           interruptFlagOf (mf_interruptState mf) =
             (if mf_interruptState mf = Some ''enabled'' then push_bit 3 1
              else if mf_interruptState mf = Some ''disabled'' then push_bit 3 2
              else 0)))"
proof -
  let ?e = "entries ! i"
  let ?out = "emitExports addr entries"
  have len: "length ?out = 4 * length entries"
    by (simp add: emitExports_concat length_concat_records)
  have nth: "\<And>j. j < 4 \<Longrightarrow> ?out ! (4 * i + j) = exportRecord addr ?e ! j"
    using assms(2) by (simp add: emitExports_concat nth_concat_records)
  have n0: "?out ! (4 * i) = exportRecord addr ?e ! 0" using nth [of 0] by simp
  have n1: "?out ! (4 * i + 1) = exportRecord addr ?e ! 1" using nth [of 1] by simp
  have n2: "?out ! (4 * i + 2) = exportRecord addr ?e ! 2" using nth [of 2] by simp
  have n3: "?out ! (4 * i + 3) = exportRecord addr ?e ! 3" using nth [of 3] by simp
  have mem: "?e \<in> set (fold (runOnMachineFunction isSub) mfs [])"
    using assms by simp
  obtain mf where mf: "mf \<in> set mfs" "FnSym ?e = mf_name mf"
      "LiveIns ?e = countUsedArgRegisters isSub mf + interruptFlagOf (mf_interruptState mf)"
    using fold_runOnMachineFunction_entries [OF mem] by auto
  have fl: "interruptFlagOf (mf_interruptState mf) = 0 \<or> interruptFlagOf (mf_interruptState mf) = 8
      \<or> interruptFlagOf (mf_interruptState mf) = 16"
    by (rule interruptFlagOf_cases)
  have li: "LiveIns ?e = countUsedArgRegisters isSub mf OR interruptFlagOf (mf_interruptState mf)"
    using mf(3) used_plus_flag [OF countUsedArgRegisters_bound fl] by simp
  have ex: "\<exists>mf \<in> set mfs.
           FnSym ?e = mf_name mf \<and>
           LiveIns ?e = countUsedArgRegisters isSub mf OR interruptFlagOf (mf_interruptState mf) \<and>
           countUsedArgRegisters isSub mf \<le> 7 \<and>
           interruptFlagOf (mf_interruptState mf) \<in> {0, push_bit 3 1, push_bit 3 2} \<and>
           interruptFlagOf (mf_interruptState mf) =
             (if mf_interruptState mf = Some ''enabled'' then push_bit 3 1
              else if mf_interruptState mf = Some ''disabled'' then push_bit 3 2
              else 0)"
  proof (rule bexI [OF _ mf(1)], intro conjI)
    show "FnSym ?e = mf_name mf" by (fact mf(2))
    show "LiveIns ?e = countUsedArgRegisters isSub mf OR interruptFlagOf (mf_interruptState mf)"
      by (fact li)
    show "countUsedArgRegisters isSub mf \<le> 7" by (rule countUsedArgRegisters_bound)
    show "interruptFlagOf (mf_interruptState mf) \<in> {0, push_bit 3 1, push_bit 3 2}"
      using fl by auto
    show "interruptFlagOf (mf_interruptState mf) =
             (if mf_interruptState mf = Some ''enabled'' then push_bit 3 1
              else if mf_interruptState mf = Some ''disabled'' then push_bit 3 2
              else 0)"
      by (rule interruptFlagOf_states)
  qed
  have st: "unat (stackSize ?e) + 7 < 2 ^ 32 \<Longrightarrow>
           unat (exportRecord addr ?e ! 2) = min 255 ((unat (stackSize ?e) + 7) div 8)"
    using stack_byte [of "stackSize ?e"] by (simp add: exportRecord_def Let_def)
  show ?thesis
    unfolding Let_def n0 n1 n2 n3
    using len ex st by (simp add: exportRecord_def Let_def ucast_twice)
qed


text \<open>C9 (as stated). A function with two used argument registers and the interrupt
  state \<^verbatim>\<open>enabled\<close>: the fourth byte is \<open>2 | 8 = 10\<close>, the claim's
  \<open>usedArgRegs | (interruptFlag << 3)\<close> with \<open>interruptFlag = 1<<3\<close> is 66.\<close>

theorem compartment_export_record_counterexample:
  "emitExports addr0 (fold (runOnMachineFunction isSub0) [mf0] []) ! 3 \<noteq>
     spec_exportFlags (countUsedArgRegisters isSub0 mf0) (interruptFlagOf (mf_interruptState mf0))"
  by code_simp

theorem compartment_export_record_witness:
  "emitExports addr0 (fold (runOnMachineFunction isSub0) [mf0] []) = [0x34, 0x02, 3, 10]"
proof -
  have e: "runOnMachineFunction isSub0 mf0 [] =
      [\<lparr>CompartmentName = ''comp'', FnName = ''entry'', FnSym = ''entry'', LiveIns = 10,
        forceLocal = False, stackSize = 20\<rparr>]"
    by code_simp
  have l: "(0 :: nat) < length (fold (runOnMachineFunction isSub0) [mf0] [])"
    by (simp add: e)
  have "length (emitExports addr0 (fold (runOnMachineFunction isSub0) [mf0] [])) = 4"
    using compartment_export_record [OF refl l, of addr0] by (simp add: e)
  then show ?thesis by code_simp
qed

text \<open>The rounding of the stack size is done in \<^verbatim>\<open>uint32_t\<close>: from \<open>2^32 - 7\<close> on,
  \<^verbatim>\<open>stackSize + 7\<close> wraps and the byte is 0.\<close>

lemma export_stackSize_wraps:
  "emitExport addr0
     \<lparr>CompartmentName = ''comp'', FnName = ''entry'', FnSym = ''entry'', LiveIns = 10,
      forceLocal = False, stackSize = 0xFFFFFFFF\<rparr> [] ! 2 = 0"
  by code_simp

section \<open>\<^verbatim>\<open>relaxOnce\<close>: theorems\<close>

text \<open>C10. For every pass number, when the configuration flag \<^verbatim>\<open>relocatable\<close> is set,
  \<^verbatim>\<open>relaxOnce\<close> returns false and leaves the link state as it is: no anchors are
  initialised, no section is relaxed, no symbol or section changes.\<close>

theorem relaxOnce_relocatable:
  "relocatable cfg \<Longrightarrow> relaxOnce env cfg pass S = Inr (False, S)"
  by (simp add: relaxOnce_def)

theorem relaxOnce_relocatable_witness:
  "relaxOnce env0 (cfg_rv32\<lparr>relocatable := True\<rparr>) 0 state0 = Inr (False, state0)"
  using relaxOnce_relocatable [of "cfg_rv32\<lparr>relocatable := True\<rparr>" env0 0 state0]
  by simp

section \<open>\<^verbatim>\<open>relax\<close>: the cumulative deltas\<close>

lemma relaxCall_frame:
  "relaxCall env cfg syms raw i loc r (aux, 0) = (aux1, remove) \<Longrightarrow>
   anchors aux1 = anchors aux \<and> relocDeltas aux1 = relocDeltas aux \<and>
   length (relocTypes aux1) = length (relocTypes aux) \<and> (remove = 0 \<or> remove = 4 \<or> remove = 6)"
  by (auto simp add: relaxCall_def Let_def split: if_splits)

lemma relaxCGP_frame:
  "relaxCGP env syms raw i loc r (aux, 0) = (aux1, remove) \<Longrightarrow>
   anchors aux1 = anchors aux \<and> relocDeltas aux1 = relocDeltas aux \<and>
   length (relocTypes aux1) = length (relocTypes aux) \<and> (remove = 0 \<or> remove = 4 \<or> remove = 6)"
  by (auto simp add: relaxCGP_def Let_def split: if_splits)

lemma relaxSwitch_frame:
  assumes "relaxSwitch env cfg syms raw rels i loc r aux = Inr (aux1, remove)"
  shows "anchors aux1 = anchors aux \<and> relocDeltas aux1 = relocDeltas aux \<and>
         length (relocTypes aux1) = length (relocTypes aux) \<and> 0 \<le> sint remove"
proof -
  consider (align) "r_type r = R_RISCV_ALIGN"
    | (call) "r_type r \<noteq> R_RISCV_ALIGN" "r_type r \<in> {R_RISCV_CALL, R_RISCV_CALL_PLT, R_RISCV_CHERI_CCALL}"
    | (cgp) "r_type r \<noteq> R_RISCV_ALIGN" "r_type r \<notin> {R_RISCV_CALL, R_RISCV_CALL_PLT, R_RISCV_CHERI_CCALL}"
        "r_type r \<in> {R_RISCV_CHERIOT_COMPARTMENT_HI, R_RISCV_CHERIOT_COMPARTMENT_LO_I,
                           R_RISCV_CHERIOT_COMPARTMENT_LO_S}"
    | (other) "r_type r \<noteq> R_RISCV_ALIGN" "r_type r \<notin> {R_RISCV_CALL, R_RISCV_CALL_PLT, R_RISCV_CHERI_CCALL}"
        "r_type r \<notin> {R_RISCV_CHERIOT_COMPARTMENT_HI, R_RISCV_CHERIOT_COMPARTMENT_LO_I,
                           R_RISCV_CHERIOT_COMPARTMENT_LO_S}"
    by blast
  then show ?thesis
  proof cases
    case align
    then show ?thesis using assms
      by (auto simp add: relaxSwitch_def Let_def split: if_splits)
  next
    case call
    show ?thesis
    proof (cases "followedByRelax rels i")
      case True
      then have "relaxCall env cfg syms raw i loc r (aux, 0) = (aux1, remove)"
        using assms call by (simp add: relaxSwitch_def)
      from relaxCall_frame [OF this] show ?thesis by auto
    next
      case False
      then show ?thesis using assms call by (simp add: relaxSwitch_def)
    qed
  next
    case cgp
    show ?thesis
    proof (cases "followedByRelax rels i")
      case True
      then have "relaxCGP env syms raw i loc r (aux, 0) = (aux1, remove)"
        using assms cgp by (simp add: relaxSwitch_def)
      from relaxCGP_frame [OF this] show ?thesis by auto
    next
      case False
      then show ?thesis using assms cgp by (simp add: relaxSwitch_def)
    qed
  next
    case other
    then show ?thesis using assms by (simp add: relaxSwitch_def)
  qed
qed


lemma relaxStep_frame:
  assumes "relaxStep env cfg secAddr raw rels vd i r st = Inr st'"
  shows "anchors (ls_aux st') = anchors (ls_aux st)"
    and "relocDeltas (ls_aux st') = (relocDeltas (ls_aux st))[i := ls_delta st']"
    and "0 \<le> sint (ls_delta st' - ls_delta st)"
    and "length (relocTypes (ls_aux st')) = length (relocTypes (ls_aux st))"
    and "(ls_sa st', ls_syms st') =
           drainAnchors (r_offset r) (ls_delta st) vd (ls_sa st) (ls_syms st)"
proof -
  let ?loc = "secAddr + r_offset r - ucast (ls_delta st)"
  obtain aux1 remove where sw:
    "relaxSwitch env cfg (ls_syms st) raw rels i ?loc r (ls_aux st) = Inr (aux1, remove)"
    using assms by (auto simp add: relaxStep_def Let_def split: sum.splits)
  note fr = relaxSwitch_frame [OF sw]
  obtain sa' syms' where dr:
    "drainAnchors (r_offset r) (ls_delta st) vd (ls_sa st) (ls_syms st) = (sa', syms')"
    by (cases "drainAnchors (r_offset r) (ls_delta st) vd (ls_sa st) (ls_syms st)")
  have st': "st' = \<lparr>ls_aux = (if ls_delta st + remove \<noteq> relocDeltas (ls_aux st) ! i
                                then aux1\<lparr>relocDeltas := (relocDeltas aux1)[i := ls_delta st + remove]\<rparr>
                                else aux1),
                      ls_syms = syms', ls_sa = sa', ls_delta = ls_delta st + remove,
                      ls_changed = (ls_changed st \<or> ls_delta st + remove \<noteq> relocDeltas (ls_aux st) ! i)\<rparr>"
    using assms sw dr by (simp add: relaxStep_def Let_def)
  show "anchors (ls_aux st') = anchors (ls_aux st)" using fr by (simp add: st')
  show "relocDeltas (ls_aux st') = (relocDeltas (ls_aux st))[i := ls_delta st']"
    using fr by (simp add: st')
  show "0 \<le> sint (ls_delta st' - ls_delta st)" using fr by (simp add: st')
  show "length (relocTypes (ls_aux st')) = length (relocTypes (ls_aux st))"
    using fr by (simp add: st')
  show "(ls_sa st', ls_syms st') =
           drainAnchors (r_offset r) (ls_delta st) vd (ls_sa st) (ls_syms st)"
    by (simp add: st' dr)
qed







lemma sameSites_refl: "sameSites rels rels"
  by (simp add: sameSites_def list_all2_refl)

lemma sameSites_trans: "sameSites a b \<Longrightarrow> sameSites b c \<Longrightarrow> sameSites a c"
  unfolding sameSites_def by (erule list_all2_trans [rotated]) auto

lemma sameSites_update:
  "i < length rels \<Longrightarrow> sameSites rels (rels[i := (rels ! i)\<lparr>r_sym := s, r_addend := a\<rparr>])"
  by (simp add: sameSites_def list_all2_conv_all_nth nth_list_update)

lemma sameSites_length: "sameSites rels rels' \<Longrightarrow> length rels' = length rels"
  by (simp add: sameSites_def list_all2_lengthD)


lemma withRelocs_same: "k < length (inputSections S) \<Longrightarrow> withRelocs S k (relocations (inputSections S ! k)) = S"
  by (simp add: withRelocs_def)

lemma withRelocs_twice:
  "k < length (inputSections S) \<Longrightarrow> withRelocs (withRelocs S k a) k b = withRelocs S k b"
  by (simp add: withRelocs_def)

lemma withRelocs_section:
  "k < length (inputSections S) \<Longrightarrow>
   inputSections (withRelocs S k a) ! k = (inputSections S ! k)\<lparr>relocations := a\<rparr>"
  by (simp add: withRelocs_def)

lemma rewriteLowReloc_cases:
  assumes "rewriteLowReloc env k i (m, S) = Inr (m', S')"
  shows "S' = S \<or>
    (\<exists>s a. S' = updSection k (\<lambda>sec. sec\<lparr>relocations := (relocations sec)
            [i := (relocations (inputSections S ! k) ! i)\<lparr>r_sym := s, r_addend := a\<rparr>]\<rparr>) S)"
proof (cases "getDefined (symtab S) (r_sym (relocations (inputSections S ! k) ! i))")
  case None
  then show ?thesis using assms
    by (simp add: rewriteLowReloc_def Let_def split: if_splits)
next
  case (Some d)
  show ?thesis
  proof (cases "d_section d")
    case None
    then show ?thesis using assms Some
      by (simp add: rewriteLowReloc_def Let_def split: if_splits)
  next
    case (Some isec)
    note sec = this
    show ?thesis
    proof (cases "findHiReloc (relocations (inputSections S ! isec)) (d_value d)")
      case None
      then show ?thesis using assms \<open>getDefined _ _ = Some d\<close> sec
        by (simp add: rewriteLowReloc_def Let_def split: if_splits)
    next
      case (Some target)
      then show ?thesis using assms \<open>getDefined _ _ = Some d\<close> sec
        by (auto simp add: rewriteLowReloc_def Let_def split: if_splits)
    qed
  qed
qed

lemma rewriteLowReloc_frame:
  assumes "rewriteLowReloc env k i (m, S) = Inr (m', S')" and "k < length (inputSections S)"
    and "i < length (relocations (inputSections S ! k))"
  shows "\<exists>rels'. S' = withRelocs S k rels' \<and> sameSites (relocations (inputSections S ! k)) rels'"
proof -
  from rewriteLowReloc_cases [OF assms(1)]
  consider (same) "S' = S"
    | (upd) s a where "S' = updSection k (\<lambda>sec. sec\<lparr>relocations := (relocations sec)
            [i := (relocations (inputSections S ! k) ! i)\<lparr>r_sym := s, r_addend := a\<rparr>]\<rparr>) S"
    by blast
  then show ?thesis
  proof cases
    case same
    have "S' = withRelocs S k (relocations (inputSections S ! k))"
      using assms(2) by (simp add: same withRelocs_same)
    then show ?thesis using sameSites_refl by blast
  next
    case upd
    have "S' = withRelocs S k ((relocations (inputSections S ! k))
            [i := (relocations (inputSections S ! k) ! i)\<lparr>r_sym := s, r_addend := a\<rparr>])"
      using assms(2) by (simp add: upd updSection_def withRelocs_def)
    then show ?thesis using sameSites_update [OF assms(3)] by blast
  qed
qed

lemma rewriteLoop_frame:
  assumes "rewriteLoop env k is (m, S) = Inr (m', S')" and "k < length (inputSections S)"
    and "\<forall>i \<in> set is. i < length (relocations (inputSections S ! k))"
  shows "\<exists>rels'. S' = withRelocs S k rels' \<and> sameSites (relocations (inputSections S ! k)) rels'"
  using assms
proof (induction "is" arbitrary: m S)
  case Nil
  then have "S' = withRelocs S k (relocations (inputSections S ! k))"
    by (simp add: withRelocs_same)
  then show ?case using sameSites_refl by blast
next
  case (Cons i "is")
  obtain m1 S1 where s1: "rewriteLowReloc env k i (m, S) = Inr (m1, S1)"
    and l1: "rewriteLoop env k is (m1, S1) = Inr (m', S')"
    using Cons.prems(1) by (auto split: sum.splits)
  obtain rels1 where r1: "S1 = withRelocs S k rels1"
    and ss1: "sameSites (relocations (inputSections S ! k)) rels1"
    using rewriteLowReloc_frame [OF s1 Cons.prems(2)] Cons.prems(3) by auto
  have k1: "k < length (inputSections S1)" using Cons.prems(2) by (simp add: r1 withRelocs_def)
  have rel1: "relocations (inputSections S1 ! k) = rels1"
    using Cons.prems(2) by (simp add: r1 withRelocs_section)
  have b1: "\<forall>i \<in> set is. i < length (relocations (inputSections S1 ! k))"
    using Cons.prems(3) sameSites_length [OF ss1] by (simp add: rel1)
  obtain rels' where r': "S' = withRelocs S1 k rels'" and ss': "sameSites rels1 rels'"
    using Cons.IH [OF l1 k1 b1] rel1 by auto
  have "S' = withRelocs S k rels'" using Cons.prems(2) by (simp add: r' r1 withRelocs_twice)
  then show ?case using sameSites_trans [OF ss1 ss'] by blast
qed

lemma rewriteCheriotLowRelocs_frame:
  assumes "rewriteCheriotLowRelocs env k S = Inr (m', S')" and "k < length (inputSections S)"
  shows "\<exists>rels'. S' = withRelocs S k rels' \<and> sameSites (relocations (inputSections S ! k)) rels'"
  using rewriteLoop_frame [OF assms(1) [unfolded rewriteCheriotLowRelocs_def] assms(2)] by simp

lemma relaxSection_Some:
  assumes "relaxAux sec = Some aux"
  shows "relaxSection env cfg secAddr ch0 sec syms =
     (case relaxLoop env cfg secAddr (rawData sec) (relocations sec)
             (computeValueDelta (relocations sec) (relocDeltas aux) (anchors aux)) 0 (relocations sec)
             \<lparr>ls_aux = aux\<lparr>relocTypes := replicate (length (relocations sec)) R_RISCV_NONE,
                               writes := []\<rparr>,
              ls_syms = syms, ls_sa = anchors aux, ls_delta = 0, ls_changed = ch0\<rparr> of
        Inl e \<Rightarrow> Inl e
      | Inr st \<Rightarrow>
          if \<not> isUInt 16 (ucast (ls_delta st))
          then Inl (Fatal ''section size decrease is too large'')
          else Inr (ls_changed st,
                    sec\<lparr>relaxAux := Some (ls_aux st), bytesDropped := ls_delta st\<rparr>,
                    fold (adjustAnchor (ls_delta st)
                            (computeValueDelta (relocations sec) (relocDeltas aux) (anchors aux)))
                         (ls_sa st) (ls_syms st)))"
  unfolding relaxSection_def assms option.case Let_def by (rule refl)



lemma relax_unfold:
  assumes "relax env cfg k pass S = Inr (ch, S')" and "k < length (inputSections S)"
  shows "\<exists>rels1 ch0 sec' syms'.
           sameSites (relocations (inputSections S ! k)) rels1 \<and>
           relaxSection env cfg (secVA env k) ch0 ((inputSections S ! k)\<lparr>relocations := rels1\<rparr>)
             (symtab S) = Inr (ch, sec', syms') \<and>
           S' = S\<lparr>inputSections := (inputSections S)[k := sec'], symtab := syms'\<rparr>"
proof -
  obtain ch0 S1 where pre:
    "(if pass = 0 then rewriteCheriotLowRelocs env k S else Inr (False, S)) = Inr (ch0, S1)"
    using assms(1) by (auto simp add: relax_def split: sum.splits)
  have "\<exists>rels1. S1 = withRelocs S k rels1 \<and> sameSites (relocations (inputSections S ! k)) rels1"
  proof (cases "pass = 0")
    case True
    then show ?thesis using pre rewriteCheriotLowRelocs_frame [OF _ assms(2)] by simp
  next
    case False
    then have "S1 = withRelocs S k (relocations (inputSections S ! k))"
      using pre assms(2) by (simp add: withRelocs_same)
    then show ?thesis using sameSites_refl by blast
  qed
  then obtain rels1 where S1: "S1 = withRelocs S k rels1"
    and ss: "sameSites (relocations (inputSections S ! k)) rels1" by blast
  have sec1: "inputSections S1 ! k = (inputSections S ! k)\<lparr>relocations := rels1\<rparr>"
    using assms(2) by (simp add: S1 withRelocs_section)
  have sy1: "symtab S1 = symtab S" by (simp add: S1 withRelocs_def)
  obtain sec' syms' where rs:
    "relaxSection env cfg (secVA env k) ch0 (inputSections S1 ! k) (symtab S1) = Inr (ch, sec', syms')"
    and S': "S' = S1\<lparr>inputSections := (inputSections S1)[k := sec'], symtab := syms'\<rparr>"
    using assms(1) pre by (auto simp add: relax_def split: sum.splits)
  have "S' = S\<lparr>inputSections := (inputSections S)[k := sec'], symtab := syms'\<rparr>"
    by (simp add: S' S1 withRelocs_def)
  then show ?thesis using ss rs sec1 sy1 by auto
qed


text \<open>A pass whose loop ends with a \<^verbatim>\<open>delta\<close> above 65535 ends in the fatal error.\<close>

lemma relaxSection_fatal:
  assumes "relaxAux sec = Some aux"
    and "relaxLoop env cfg secAddr (rawData sec) (relocations sec)
           (computeValueDelta (relocations sec) (relocDeltas aux) (anchors aux)) 0 (relocations sec)
           \<lparr>ls_aux = aux\<lparr>relocTypes := replicate (length (relocations sec)) R_RISCV_NONE,
                             writes := []\<rparr>,
            ls_syms = syms, ls_sa = anchors aux, ls_delta = 0, ls_changed = ch0\<rparr> = Inr st"
    and "\<not> isUInt 16 (ucast (ls_delta st))"
  shows "relaxSection env cfg secAddr ch0 sec syms =
           Inl (Fatal ''section size decrease is too large'')"
  unfolding relaxSection_Some [OF assms(1)] assms(2) sum.case using assms(3) by simp



section \<open>\<^verbatim>\<open>relax\<close>: the two loops over the anchors\<close>

lemma getDefined_updDefined:
  "getDefined (updDefined syms s f) t =
     (if t = s then map_option f (getDefined syms s) else getDefined syms t)"
  by (auto simp add: getDefined_def updDefined_def split: option.splits)

lemma getDefined_adjustAnchor:
  "getDefined (adjustAnchor delta vd a syms) t =
     (if t = a_d a
      then map_option (if a_end a then (\<lambda>d. d\<lparr>d_size := a_offset a - ucast delta - d_value d\<rparr>)
                       else (\<lambda>d. d\<lparr>d_value := d_value d - (ucast delta - vdFind vd (a_d a))\<rparr>))
             (getDefined syms t)
      else getDefined syms t)"
  by (simp add: adjustAnchor_def getDefined_updDefined)

lemma fold_adjust_other:
  "\<forall>b \<in> set sa. a_d b \<noteq> s \<Longrightarrow>
   getDefined (fold (\<lambda>a. adjustAnchor (D a) vd a) sa syms) s = getDefined syms s"
  by (induction sa arbitrary: syms) (simp_all add: getDefined_adjustAnchor)





lemma drainAnchors_eq:
  "drainAnchors off delta vd sa syms =
     (dropWhile (\<lambda>a. a_offset a \<le> off) sa,
      fold (adjustAnchor delta vd) (takeWhile (\<lambda>a. a_offset a \<le> off) sa) syms)"
  by (induction sa arbitrary: syms) simp_all














section \<open>\<^verbatim>\<open>initSymbolAnchors\<close>: the anchors of a section\<close>

lemma fold_updSection:
  assumes "\<And>sec. f (f sec) = f sec"
  shows "symtab (fold (\<lambda>k. updSection k f) ks S) = symtab S \<and>
         objectFiles (fold (\<lambda>k. updSection k f) ks S) = objectFiles S \<and>
         outputSections (fold (\<lambda>k. updSection k f) ks S) = outputSections S \<and>
         length (inputSections (fold (\<lambda>k. updSection k f) ks S)) = length (inputSections S) \<and>
         (\<forall>j<length (inputSections S).
            inputSections (fold (\<lambda>k. updSection k f) ks S) ! j =
              (if j \<in> set ks then f (inputSections S ! j) else inputSections S ! j))"
proof (induction ks arbitrary: S)
  case Nil
  then show ?case by simp
next
  case (Cons k ks)
  have s1: "symtab (updSection k f S) = symtab S"
    "objectFiles (updSection k f S) = objectFiles S"
    "outputSections (updSection k f S) = outputSections S"
    "length (inputSections (updSection k f S)) = length (inputSections S)"
    by (simp_all add: updSection_def)
  have n1: "inputSections (updSection k f S) ! j =
              (if j = k then f (inputSections S ! j) else inputSections S ! j)"
    if "j < length (inputSections S)" for j
    using that by (simp add: updSection_def nth_list_update)
  show ?case
    using Cons.IH [of "updSection k f S"] by (auto simp add: s1 n1 assms)
qed

lemma freshAux_idem: "freshAux (freshAux sec) = freshAux sec"
  by (simp add: freshAux_def)

lemma sortAnchors_idem: "sortAnchors (sortAnchors sec) = sortAnchors sec"
  by (cases "relaxAux sec") (simp_all add: sortAnchors_def sort_key_id_if_sorted)

lemma pushAnchors_Nil: "pushAnchors [] sec = sec"
  by (cases "relaxAux sec") (simp_all add: pushAnchors_def)

lemma pushAnchors_append: "pushAnchors B (pushAnchors A sec) = pushAnchors (A @ B) sec"
  by (cases "relaxAux sec") (simp_all add: pushAnchors_def)

lemma pushAnchors_flags: "s_flags (pushAnchors A sec) = s_flags sec"
  by (cases "relaxAux sec") (simp_all add: pushAnchors_def)

lemma anchored_refl: "anchored [] S S"
  by (simp add: anchored_def pushAnchors_Nil)

lemma anchored_trans:
  assumes "anchored L1 S S1" and "anchored L2 S1 S2"
  shows "anchored (L1 @ L2) S S2"
  using assms
  by (auto simp add: anchored_def pushAnchors_append pushAnchors_flags)

lemma symAnchors_other:
  "getDefined syms s = Some d \<Longrightarrow> d_section d \<noteq> Some j \<Longrightarrow> symAnchors syms j (fi, s) = []"
  by (simp add: symAnchors_def)

lemma anchored_step: "anchored [(fi, s)] S (anchorSymbol fi s S)"
proof (cases "getDefined (symtab S) s")
  case None
  then show ?thesis
    by (simp add: anchored_def anchorSymbol_def symAnchors_def pushAnchors_Nil)
next
  case (Some d)
  note d = this
  show ?thesis
  proof (cases "d_file d = fi")
    case False
    then show ?thesis using d
      by (simp add: anchored_def anchorSymbol_def symAnchors_def pushAnchors_Nil)
  next
    case True
    note fi = this
    show ?thesis
    proof (cases "d_section d")
      case None
      then show ?thesis using d fi
        by (simp add: anchored_def anchorSymbol_def symAnchors_def pushAnchors_Nil)
    next
      case (Some k)
      note k = this
      let ?new = "[\<lparr>a_offset = d_value d, a_d = s, a_end = False\<rparr>,
                   \<lparr>a_offset = d_value d + d_size d, a_d = s, a_end = True\<rparr>]"
      have sk: "symAnchors (symtab S) k (fi, s) = ?new"
        using d fi k by (simp add: symAnchors_def)
      have so: "symAnchors (symtab S) j (fi, s) = []" if "j \<noteq> k" for j
        using d k that by (simp add: symAnchors_def)
      show ?thesis
      proof (cases "k < length (inputSections S) \<and>
                    s_flags (inputSections S ! k) AND SHF_EXECINSTR \<noteq> 0 \<and>
                    relaxAux (inputSections S ! k) \<noteq> None")
        case True
        then have "anchorSymbol fi s S = updSection k (pushAnchors ?new) S"
          using d fi k by (simp add: anchorSymbol_def)
        then show ?thesis using True
          by (auto simp add: anchored_def updSection_def nth_list_update sk so pushAnchors_Nil)
      next
        case False
        then have e: "anchorSymbol fi s S = S"
          using d fi k by (auto simp add: anchorSymbol_def)
        have "pushAnchors (symAnchors (symtab S) j (fi, s)) (inputSections S ! j) = inputSections S ! j"
          if "j < length (inputSections S)" "s_flags (inputSections S ! j) AND SHF_EXECINSTR \<noteq> 0" for j
        proof (cases "j = k")
          case True
          then have "relaxAux (inputSections S ! j) = None" using False that by simp
          then show ?thesis by (simp add: pushAnchors_def)
        next
          case False
          then show ?thesis by (simp add: so pushAnchors_Nil)
        qed
        then show ?thesis by (simp add: anchored_def e)
      qed
    qed
  qed
qed

lemma anchored_symbols: "anchored (map (Pair fi) ss) S (fold (anchorSymbol fi) ss S)"
proof (induction ss arbitrary: S)
  case Nil
  then show ?case by (simp add: anchored_refl)
next
  case (Cons s ss)
  have "anchored ([(fi, s)] @ map (Pair fi) ss) S (fold (anchorSymbol fi) ss (anchorSymbol fi s S))"
    using anchored_step Cons.IH by (rule anchored_trans)
  then show ?case by simp
qed

lemma anchored_files:
  "anchored (concat (map (\<lambda>fi. map (Pair fi) (f_symbols (objectFiles S ! fi))) fis)) S
     (fold anchorFile fis S)"
proof (induction fis arbitrary: S)
  case Nil
  then show ?case by (simp add: anchored_refl)
next
  case (Cons fi fis)
  let ?S1 = "anchorFile fi S"
  have a1: "anchored (map (Pair fi) (f_symbols (objectFiles S ! fi))) S ?S1"
    unfolding anchorFile_def by (rule anchored_symbols)
  then have o1: "objectFiles ?S1 = objectFiles S" by (simp add: anchored_def)
  have a2: "anchored (concat (map (\<lambda>fi. map (Pair fi) (f_symbols (objectFiles S ! fi))) fis)) ?S1
              (fold anchorFile fis ?S1)"
    using Cons.IH [of ?S1] by (simp only: o1)
  show ?case using anchored_trans [OF a1 a2] by simp
qed

lemma execInputSections_cong:
  "outputSections A = outputSections B \<Longrightarrow> execInputSections A = execInputSections B"
  by (simp add: execInputSections_def)

lemma initSymbolAnchors_section:
  assumes "k \<in> set (execInputSections S)" and "k < length (inputSections S)"
  shows "inputSections (initSymbolAnchors S) ! k =
           (inputSections S ! k)
             \<lparr>relaxAux := Some \<lparr>anchors = sort_key anchorKey (sectionAnchors S k),
                       relocDeltas = replicate (length (relocations (inputSections S ! k))) 0,
                       relocTypes = replicate (length (relocations (inputSections S ! k))) R_RISCV_NONE,
                       writes = []\<rparr>\<rparr>"
    and "symtab (initSymbolAnchors S) = symtab S"
proof -
  let ?S1 = "fold (\<lambda>k. updSection k freshAux) (execInputSections S) S"
  let ?S2 = "fold anchorFile [0 ..< length (objectFiles ?S1)] ?S1"
  let ?S3 = "fold (\<lambda>k. updSection k sortAnchors) (execInputSections ?S2) ?S2"
  have i: "initSymbolAnchors S = ?S3" by (simp add: initSymbolAnchors_def Let_def)
  note f1 = fold_updSection [of freshAux "execInputSections S" S, OF freshAux_idem]
  have s1: "symtab ?S1 = symtab S" "objectFiles ?S1 = objectFiles S"
    "outputSections ?S1 = outputSections S" "length (inputSections ?S1) = length (inputSections S)"
    using f1 by simp_all
  have k1: "inputSections ?S1 ! k = freshAux (inputSections S ! k)"
    using f1 assms by simp
  have a2: "anchored (fileSymbols ?S1) ?S1 ?S2"
    unfolding fileSymbols_def by (rule anchored_files)
  have fs: "fileSymbols ?S1 = fileSymbols S" by (simp add: fileSymbols_def s1)
  have s2: "symtab ?S2 = symtab S" "outputSections ?S2 = outputSections S"
    "length (inputSections ?S2) = length (inputSections S)"
    using a2 by (simp_all add: anchored_def s1)
  have fl: "s_flags (freshAux sec) = s_flags sec" for sec by (simp add: freshAux_def)
  have k2: "inputSections ?S2 ! k =
              pushAnchors (sectionAnchors S k) (freshAux (inputSections S ! k))"
    using a2 assms(2)
    by (simp add: anchored_def s1 k1 fs fl sectionAnchors_def pushAnchors_Nil)
  note f3 = fold_updSection [of sortAnchors "execInputSections ?S2" ?S2, OF sortAnchors_idem]
  have e2: "execInputSections ?S2 = execInputSections S"
    by (rule execInputSections_cong [OF s2(2)])
  have k3: "inputSections ?S3 ! k = sortAnchors (inputSections ?S2 ! k)"
    using f3 assms by (simp add: s2 e2)
  show "inputSections (initSymbolAnchors S) ! k =
           (inputSections S ! k)
             \<lparr>relaxAux := Some \<lparr>anchors = sort_key anchorKey (sectionAnchors S k),
                       relocDeltas = replicate (length (relocations (inputSections S ! k))) 0,
                       relocTypes = replicate (length (relocations (inputSections S ! k))) R_RISCV_NONE,
                       writes = []\<rparr>\<rparr>"
    unfolding i k3 k2 by (simp add: sortAnchors_def pushAnchors_def freshAux_def)
  show "symtab (initSymbolAnchors S) = symtab S"
    unfolding i using f3 by (simp add: s2)
qed

lemma symAnchors_mem:
  "a \<in> set (symAnchors syms k fs) \<Longrightarrow>
   \<exists>d. getDefined syms (a_d a) = Some d \<and> d_section d = Some k \<and>
       a_offset a = (if a_end a then d_value d + d_size d else d_value d)"
  by (cases "getDefined syms (snd fs)") (auto simp add: symAnchors_def split: if_splits)

lemma symAnchors_set:
  "a \<in> set (concat (map (symAnchors syms k) L)) \<Longrightarrow>
   \<exists>d. getDefined syms (a_d a) = Some d \<and> d_section d = Some k \<and>
       a_offset a = (if a_end a then d_value d + d_size d else d_value d)"
proof -
  assume "a \<in> set (concat (map (symAnchors syms k) L))"
  then obtain fs where "a \<in> set (symAnchors syms k fs)" by auto
  then show ?thesis by (rule symAnchors_mem)
qed

lemma symAnchors_starts:
  "map a_d (filter (\<lambda>a. \<not> a_end a) (concat (map (symAnchors syms k) L))) =
   map snd (filter (\<lambda>fs. symAnchors syms k fs \<noteq> []) L)"
  by (induction L) (auto simp add: symAnchors_def split: option.splits)

lemma symAnchors_ends:
  "map a_d (filter a_end (concat (map (symAnchors syms k) L))) =
   map snd (filter (\<lambda>fs. symAnchors syms k fs \<noteq> []) L)"
  by (induction L) (auto simp add: symAnchors_def split: option.splits)

lemma distinct_concat_map:
  "distinct xs \<Longrightarrow> (\<forall>i \<in> set xs. distinct (F i)) \<Longrightarrow>
   (\<forall>i \<in> set xs. \<forall>j \<in> set xs. i \<noteq> j \<longrightarrow> set (F i) \<inter> set (F j) = {}) \<Longrightarrow>
   distinct (concat (map F xs))"
  by (induction xs) auto

lemma fileSymbols_distinct:
  assumes "\<forall>f \<in> set (objectFiles S). distinct (f_symbols f)"
  shows "distinct (fileSymbols S)"
  unfolding fileSymbols_def
proof (rule distinct_concat_map)
  show "distinct [0 ..< length (objectFiles S)]" by simp
  show "\<forall>i \<in> set [0 ..< length (objectFiles S)].
          distinct (map (Pair i) (f_symbols (objectFiles S ! i)))"
    using assms by (auto simp add: distinct_map inj_on_def)
  show "\<forall>i \<in> set [0 ..< length (objectFiles S)]. \<forall>j \<in> set [0 ..< length (objectFiles S)].
          i \<noteq> j \<longrightarrow> set (map (Pair i) (f_symbols (objectFiles S ! i))) \<inter>
                     set (map (Pair j) (f_symbols (objectFiles S ! j))) = {}"
    by auto
qed

lemma symAnchors_inj: "inj_on snd (set (filter (\<lambda>fs. symAnchors syms k fs \<noteq> []) L))"
proof (rule inj_onI)
  fix x y
  assume x: "x \<in> set (filter (\<lambda>fs. symAnchors syms k fs \<noteq> []) L)"
    and y: "y \<in> set (filter (\<lambda>fs. symAnchors syms k fs \<noteq> []) L)"
    and e: "snd x = snd y"
  obtain d where d: "getDefined syms (snd x) = Some d" "d_file d = fst x"
    using x by (auto simp add: symAnchors_def split: option.splits if_splits)
  obtain d' where d': "getDefined syms (snd y) = Some d'" "d_file d' = fst y"
    using y by (auto simp add: symAnchors_def split: option.splits if_splits)
  have "fst x = fst y" using d d' e by simp
  then show "x = y" using e by (simp add: prod_eq_iff)
qed

lemma sectionAnchors_distinct:
  assumes "\<forall>f \<in> set (objectFiles S). distinct (f_symbols f)"
  shows "distinct (map a_d (filter (\<lambda>a. \<not> a_end a) (sectionAnchors S k)))"
    and "distinct (map a_d (filter a_end (sectionAnchors S k)))"
proof -
  have "distinct (map snd (filter (\<lambda>fs. symAnchors (symtab S) k fs \<noteq> []) (fileSymbols S)))"
    using fileSymbols_distinct [OF assms] symAnchors_inj
    by (simp add: distinct_map)
  then show "distinct (map a_d (filter (\<lambda>a. \<not> a_end a) (sectionAnchors S k)))"
    and "distinct (map a_d (filter a_end (sectionAnchors S k)))"
    by (simp_all add: sectionAnchors_def symAnchors_starts symAnchors_ends)
qed

lemma sectionAnchors_set:
  assumes "a \<in> set (sectionAnchors S k)"
  shows "\<exists>d. getDefined (symtab S) (a_d a) = Some d \<and> d_section d = Some k \<and>
       a_offset a = (if a_end a then d_value d + d_size d else d_value d)"
proof (cases "s_flags (inputSections S ! k) AND SHF_EXECINSTR \<noteq> 0")
  case True
  then have "a \<in> set (concat (map (symAnchors (symtab S) k) (fileSymbols S)))"
    using assms by (simp add: sectionAnchors_def)
  then show ?thesis by (rule symAnchors_set)
next
  case False
  then show ?thesis using assms by (simp add: sectionAnchors_def)
qed

lemma sorted_anchorKey_offset: "sorted (map anchorKey xs) \<Longrightarrow> sorted (map a_offset xs)"
  by (induction xs) (auto simp add: anchorKey_def less_eq_prod_def)

lemma sorted_startsFirst:
  assumes "sorted (map anchorKey xs)"
    and "\<forall>e \<in> set xs. \<forall>b \<in> set xs.
           a_end e \<and> \<not> a_end b \<and> a_d b = a_d e \<longrightarrow> anchorKey b < anchorKey e"
  shows "startsFirst xs"
  using assms
proof (induction xs)
  case Nil
  then show ?case by simp
next
  case (Cons x xs)
  have le: "\<forall>y \<in> set xs. anchorKey x \<le> anchorKey y" using Cons.prems(1) by simp
  have "a_end x \<longrightarrow> (\<forall>b \<in> set xs. a_end b \<or> a_d b \<noteq> a_d x)"
  proof (intro impI ballI)
    fix b
    assume x: "a_end x" and b: "b \<in> set xs"
    show "a_end b \<or> a_d b \<noteq> a_d x"
    proof (rule ccontr)
      assume "\<not> (a_end b \<or> a_d b \<noteq> a_d x)"
      then have "\<not> a_end b" "a_d b = a_d x" by auto
      then have "anchorKey b < anchorKey x" using Cons.prems(2) x b by simp
      moreover have "anchorKey x \<le> anchorKey b" using le b by simp
      ultimately show False by simp
    qed
  qed
  moreover have "startsFirst xs" using Cons.IH Cons.prems by simp
  ultimately show ?case by simp
qed

lemma sort_distinct_filter:
  "distinct (map g (filter P (sort_key f xs))) = distinct (map g (filter P xs))"
  by (rule mset_eq_imp_distinct_iff) simp

lemma deltaAt_zero: "deltaAt offs (replicate n 0) off = 0"
  by (simp add: deltaAt_def)

text \<open>What \<^const>\<open>initSymbolAnchors\<close> establishes for a section of an executable output
  section, when no symbol list of a file names a symbol twice and \<^verbatim>\<open>st_value + st_size\<close>
  wraps for no symbol: the anchors have the shape \<^const>\<open>anchorsWF\<close>, the start anchor of a
  symbol holds its value and the two anchors are its size apart, and the values are in
  step with the zeroed \<^verbatim>\<open>relocDeltas\<close>.\<close>

lemma initSymbolAnchors_invariant:
  assumes "k \<in> set (execInputSections S)" and "k < length (inputSections S)"
    and "\<forall>f \<in> set (objectFiles S). distinct (f_symbols f)"
    and "\<forall>s d. getDefined (symtab S) s = Some d \<longrightarrow> d_value d \<le> d_value d + d_size d"
  shows "\<exists>aux. relaxAux (inputSections (initSymbolAnchors S) ! k) = Some aux \<and>
           length (relocDeltas aux) =
             length (relocations (inputSections (initSymbolAnchors S) ! k)) \<and>
           anchorsWF (anchors aux) \<and>
           (\<forall>a \<in> set (anchors aux). \<not> a_end a \<longrightarrow>
              symValue (symtab S) (a_d a) = Some (a_offset a) \<and>
              symValue (symtab (initSymbolAnchors S)) (a_d a) =
                Some (a_offset a - ucast (sectionDeltaAt (initSymbolAnchors S) k (a_offset a)))) \<and>
           (\<forall>a \<in> set (anchors aux). \<forall>e \<in> set (anchors aux).
              \<not> a_end a \<and> a_end e \<and> a_d e = a_d a \<longrightarrow>
              symSize (symtab S) (a_d a) = Some (a_offset e - a_offset a))"
proof -
  let ?S0 = "initSymbolAnchors S"
  let ?xs = "sectionAnchors S k"
  let ?sa = "sort_key anchorKey ?xs"
  let ?n = "length (relocations (inputSections S ! k))"
  let ?aux = "\<lparr>anchors = ?sa, relocDeltas = replicate ?n 0,
               relocTypes = replicate ?n R_RISCV_NONE, writes = []\<rparr>"
  note sec = initSymbolAnchors_section [OF assms(1,2)]
  have ax: "relaxAux (inputSections ?S0 ! k) = Some ?aux" by (simp add: sec(1))
  have ln: "length (relocDeltas ?aux) = length (relocations (inputSections ?S0 ! k))"
    by (simp add: sec(1))
  have sd: "sectionDeltaAt ?S0 k off = 0" for off
    by (simp add: sectionDeltaAt_def sectionDeltas_def ax deltaAt_zero)
  have mem: "\<exists>d. getDefined (symtab S) (a_d a) = Some d \<and> d_section d = Some k \<and>
       a_offset a = (if a_end a then d_value d + d_size d else d_value d)"
    if "a \<in> set ?sa" for a
    using that by (intro sectionAnchors_set) simp
  have key: "anchorKey b < anchorKey e"
    if p: "e \<in> set ?sa" "b \<in> set ?sa" "a_end e" "\<not> a_end b" "a_d b = a_d e" for b e
  proof -
    obtain d where d: "getDefined (symtab S) (a_d e) = Some d" "a_offset e = d_value d + d_size d"
      using mem [OF p(1)] p(3) by auto
    have b: "a_offset b = d_value d" using mem [OF p(2)] p(4,5) d(1) by auto
    have "d_value d \<le> d_value d + d_size d" using assms(4) d(1) by blast
    then show ?thesis using p(3,4) by (simp add: anchorKey_def less_prod_def b d(2))
  qed
  have sk: "sorted (map anchorKey ?sa)" by (rule sorted_sort_key)
  have wf: "anchorsWF ?sa"
    unfolding anchorsWF_def
  proof (intro conjI)
    show "sorted (map a_offset ?sa)" using sk by (rule sorted_anchorKey_offset)
    show "distinct (map a_d (filter (\<lambda>a. \<not> a_end a) ?sa))"
      using sectionAnchors_distinct(1) [OF assms(3)] by (simp only: sort_distinct_filter)
    show "distinct (map a_d (filter a_end ?sa))"
      using sectionAnchors_distinct(2) [OF assms(3)] by (simp only: sort_distinct_filter)
    show "startsFirst ?sa" using sk key by (intro sorted_startsFirst) blast+
  qed
  have val: "symValue (symtab S) (a_d a) = Some (a_offset a) \<and>
             symValue (symtab ?S0) (a_d a) = Some (a_offset a - ucast (sectionDeltaAt ?S0 k (a_offset a)))"
    if "a \<in> set ?sa" "\<not> a_end a" for a
    using mem [OF that(1)] that(2) by (auto simp add: symValue_def sec(2) sd)
  have siz: "symSize (symtab S) (a_d a) = Some (a_offset e - a_offset a)"
    if "a \<in> set ?sa" "e \<in> set ?sa" "\<not> a_end a" "a_end e" "a_d e = a_d a" for a e
    using mem [OF that(1)] mem [OF that(2)] that(3,4,5) by (auto simp add: symSize_def)
  have c4: "\<forall>a \<in> set (anchors ?aux). \<not> a_end a \<longrightarrow>
              symValue (symtab S) (a_d a) = Some (a_offset a) \<and>
              symValue (symtab ?S0) (a_d a) =
                Some (a_offset a - ucast (sectionDeltaAt ?S0 k (a_offset a)))"
    using val by simp
  have c5: "\<forall>a \<in> set (anchors ?aux). \<forall>e \<in> set (anchors ?aux).
              \<not> a_end a \<and> a_end e \<and> a_d e = a_d a \<longrightarrow>
              symSize (symtab S) (a_d a) = Some (a_offset e - a_offset a)"
    using siz by simp
  have c3: "anchorsWF (anchors ?aux)" using wf by simp
  show ?thesis using ax ln c3 c4 c5 by blast
qed

text \<open>A pass over another section \<open>k'\<close> leaves the section \<open>k\<close> and the symbols without
  an anchor in \<open>k'\<close> as they are; by \<open>sectionAnchors_set\<close> the anchors of a section name
  symbols of that section only.\<close>

lemma relaxLoop_other_symbols:
  assumes "relaxLoop env cfg secAddr raw rels vd i rs st = Inr st'"
    and "\<forall>a \<in> set (ls_sa st). a_d a \<noteq> s"
  shows "getDefined (ls_syms st') s = getDefined (ls_syms st) s \<and>
         (\<forall>a \<in> set (ls_sa st'). a_d a \<noteq> s)"
  using assms
proof (induction rs arbitrary: i st)
  case Nil
  then show ?case by simp
next
  case (Cons r rs)
  obtain st1 where s1: "relaxStep env cfg secAddr raw rels vd i r st = Inr st1"
    and l1: "relaxLoop env cfg secAddr raw rels vd (i + 1) rs st1 = Inr st'"
    using Cons.prems(1) by (auto split: sum.splits)
  note f = relaxStep_frame [OF s1]
  let ?TW = "takeWhile (\<lambda>a. a_offset a \<le> r_offset r) (ls_sa st)"
  have dr1: "ls_sa st1 = dropWhile (\<lambda>a. a_offset a \<le> r_offset r) (ls_sa st)"
    and dr2: "ls_syms st1 = fold (\<lambda>a. adjustAnchor (ls_delta st) vd a) ?TW (ls_syms st)"
    using f(5) by (simp_all add: drainAnchors_eq)
  have n1: "\<forall>a \<in> set (ls_sa st1). a_d a \<noteq> s"
    using Cons.prems(2) by (auto simp add: dr1 dest: set_dropWhileD)
  have nt: "\<forall>a \<in> set ?TW. a_d a \<noteq> s"
    using Cons.prems(2) by (auto dest: set_takeWhileD)
  have g1: "getDefined (ls_syms st1) s = getDefined (ls_syms st) s"
    unfolding dr2 using nt by (rule fold_adjust_other)
  show ?case using Cons.IH [OF l1 n1] g1 by simp
qed

lemma relax_other:
  assumes "relax env cfg k' pass S = Inr (ch, S')"
    and "k' < length (inputSections S)"
    and "relaxAux (inputSections S ! k') = Some aux'"
  shows "(k \<noteq> k' \<longrightarrow> inputSections S' ! k = inputSections S ! k) \<and>
         ((\<forall>a \<in> set (anchors aux'). a_d a \<noteq> s) \<longrightarrow>
            getDefined (symtab S') s = getDefined (symtab S) s)"
proof -
  obtain rels1 ch0 sec' syms' where
    rs: "relaxSection env cfg (secVA env k') ch0 ((inputSections S ! k')\<lparr>relocations := rels1\<rparr>)
             (symtab S) = Inr (ch, sec', syms')"
    and S': "S' = S\<lparr>inputSections := (inputSections S)[k' := sec'], symtab := syms'\<rparr>"
    using relax_unfold [OF assms(1,2)] by blast
  let ?sec1 = "(inputSections S ! k')\<lparr>relocations := rels1\<rparr>"
  let ?vd = "computeValueDelta rels1 (relocDeltas aux') (anchors aux')"
  let ?st0 = "\<lparr>ls_aux = aux'\<lparr>relocTypes := replicate (length rels1) R_RISCV_NONE, writes := []\<rparr>,
               ls_syms = symtab S, ls_sa = anchors aux', ls_delta = 0, ls_changed = ch0\<rparr>"
  have a1: "relaxAux ?sec1 = Some aux'" using assms(3) by simp
  note eq = rs [unfolded relaxSection_Some [OF a1]]
  obtain st where lp: "relaxLoop env cfg (secVA env k') (rawData ?sec1) rels1 ?vd 0 rels1 ?st0 = Inr st"
    using eq by (cases "relaxLoop env cfg (secVA env k') (rawData ?sec1) rels1 ?vd 0 rels1 ?st0") simp_all
  have lp': "relaxLoop env cfg (secVA env k') (rawData ?sec1) (relocations ?sec1)
               (computeValueDelta (relocations ?sec1) (relocDeltas aux') (anchors aux')) 0
               (relocations ?sec1)
               \<lparr>ls_aux = aux'\<lparr>relocTypes := replicate (length (relocations ?sec1)) R_RISCV_NONE,
                                 writes := []\<rparr>,
                ls_syms = symtab S, ls_sa = anchors aux', ls_delta = 0, ls_changed = ch0\<rparr> = Inr st"
    using lp by simp
  note eq2 = eq [unfolded lp' sum.case]
  have ok: "isUInt 16 (ucast (ls_delta st))"
    using eq2 by (cases "isUInt 16 (ucast (ls_delta st) :: u64)") simp_all
  have syms': "syms' = fold (\<lambda>a. adjustAnchor (ls_delta st) ?vd a) (ls_sa st) (ls_syms st)"
    using eq2 ok by simp
  have sy: "getDefined syms' s = getDefined (symtab S) s"
    if n: "\<forall>a \<in> set (anchors aux'). a_d a \<noteq> s"
  proof -
    have n0: "\<forall>a \<in> set (ls_sa ?st0). a_d a \<noteq> s" using n by simp
    note fr = relaxLoop_other_symbols [OF lp n0]
    have "getDefined syms' s = getDefined (ls_syms st) s"
      unfolding syms' using fr by (intro fold_adjust_other) simp
    then show ?thesis using fr by simp
  qed
  show ?thesis using sy assms(2) by (simp add: S')
qed

section \<open>\<^verbatim>\<open>relax\<close>: value and size of a symbol after a pass\<close>



end
